theory Spec2Isabelle
  imports Main "HOL-Library.AList" "HOL-Library.Sublist"
begin

section \<open>Python values handled by \<open>quipubase/partial.py\<close>\<close>

text \<open>
  The module patches pydantic records, dictionaries, lists and scalars.
  \<^item> A string is a list of characters, each a code point below 256.
  \<^item> A dictionary is an association list in insertion order, the order in which Python
    iterates over it, with distinct keys; the keys are strings or integers.
  \<^item> A record is its class with its attributes by name. The attributes are all the
    names of which \<open>hasattr(result, key)\<close> holds, each with the value that
    \<open>getattr(result, key)\<close> returns: the fields of the record, and also the methods and
    class variables that the record has from its class and from \<open>BaseModel\<close>
    (\<open>model_dump\<close>, \<open>copy\<close>, \<open>json\<close>, ...), whose values are objects of other classes.
  \<^item> Of the class of a record the module uses three things, which pydantic decides and
    which are given with the class: its name; the names that \<open>get_type_hints\<close> returns;
    and what \<open>setattr\<close> does on an instance. \<open>readonly\<close> lists the attribute names for
    which \<open>setattr\<close> raises, each with the error raised: the names that are not fields,
    and every field when the class is frozen. For any other name \<open>setattr\<close> stores the
    value as it is given (assignments are not validated, pydantic's default).
  \<^item> A \<open>Partial\<close> object is its \<open>data\<close> attribute, the keyword arguments it was built
    from.
  \<^item> \<open>PObject\<close> is an object of another class that the module takes as a unit and
    that \<open>copy.deepcopy\<close> copies without error: a function, a class, a bound method.
    An object that cannot be copied is not a value of the model.
  In the examples a record is written with its fields only, or with a few of its methods
  besides; the theorems are stated for every list of attributes.

  This first part is in value semantics: a value is a tree and \<open>copy.deepcopy\<close> of a
  value is the value itself. The store semantics, where objects, copies and assignments
  are explicit, follows it. \<open>RecursionError\<close> belongs to the store semantics, which
  bounds the depth of calls; the value semantics does not.
\<close>

datatype key = KStr string | KInt int

datatype error = ValueError string | TypeError | AttributeError string | RecursionError

datatype model_class =
  ModelClass (cls_name: string) (type_hints: "string list") (readonly: "(string \<times> error) list")

datatype pyval =
    PNone
  | PBool bool
  | PInt int
  | PStr string
  | PObject string
  | PList "pyval list"
  | PDict "(key \<times> pyval) list"
  | PModel model_class "(string \<times> pyval) list"
  | PPartial "(string \<times> pyval) list"

text \<open>\<open>isinstance(v, (dict, list, BaseModel))\<close>\<close>

fun is_complex :: "pyval \<Rightarrow> bool" where
  "is_complex (PList xs) = True"
| "is_complex (PDict d) = True"
| "is_complex (PModel c attrs) = True"
| "is_complex v = False"

section \<open>Construction: \<open>Partial.__new__\<close>, \<open>Partial.__init__\<close>, \<open>create_typed_partial\<close>\<close>

text \<open>
  The type argument of \<open>Partial[...]\<close>: \<open>Any\<close>, a subclass of \<open>BaseModel\<close>, another
  class, or something that is not a class (\<open>List[int]\<close>, a type variable), of which
  \<open>issubclass\<close> raises \<open>TypeError\<close>. An entry of \<open>__orig_bases__\<close> is \<open>Generic[T]\<close> (the base of \<open>Partial\<close> itself),
  \<open>Partial[X]\<close>, or any other base, of which \<open>get_origin\<close> is not \<open>Partial\<close>.
\<close>

datatype type_arg = TAny | TModel model_class | TClass string | TNotAClass string

datatype orig_base = GenericT | PartialOf type_arg | OtherBase string

text \<open>A class of patches is known by its \<open>__orig_bases__\<close>, when it has the attribute.\<close>

type_synonym partial_class = "orig_base list option"

text \<open>
  The loop of \<open>__new__\<close> over \<open>__orig_bases__\<close>: the first base \<open>Partial[X]\<close> with
  \<open>X\<close> not \<open>Any\<close> gives the origin type.
\<close>

fun find_origin_type :: "orig_base list \<Rightarrow> type_arg option" where
  "find_origin_type [] = None"
| "find_origin_type (GenericT # bases) = find_origin_type bases"
| "find_origin_type (PartialOf t # bases) =
     (if t \<noteq> TAny then Some t else find_origin_type bases)"
| "find_origin_type (OtherBase b # bases) = find_origin_type bases"

text \<open>\<open>', '.join(invalid_fields)\<close>\<close>

fun join_comma :: "string list \<Rightarrow> string" where
  "join_comma [] = []"
| "join_comma [s] = s"
| "join_comma (s # t # rest) = s @ '', '' @ join_comma (t # rest)"

definition invalid_fields :: "model_class \<Rightarrow> (string \<times> 'a) list \<Rightarrow> string list" where
  "invalid_fields c kwargs = filter (\<lambda>field. field \<notin> set (type_hints c)) (map fst kwargs)"

definition error_msg :: "model_class \<Rightarrow> string list \<Rightarrow> string" where
  "error_msg c invalid = ''Invalid fields for '' @ cls_name c @ '': '' @ join_comma invalid"

text \<open>
  The call \<open>cls(**kwargs)\<close> of a class of patches. It runs
  \<open>Partial.__new__(cls, **kwargs)\<close> and then \<open>__init__(self, **kwargs)\<close>.
  \<^item> \<open>call_new\<close>: a keyword named \<open>cls\<close> meets the first parameter of \<open>__new__\<close>
    and the call raises \<open>TypeError\<close> before the body runs; otherwise the body looks the
    origin type up and validates the keywords against it.
  \<^item> \<open>call_init\<close>: a keyword named \<open>self\<close> meets the first parameter of \<open>__init__\<close>
    and the call raises \<open>TypeError\<close>; otherwise \<open>self.data = kwargs\<close>.
  \<open>None\<close> is a call that returns.
\<close>

definition call_new :: "partial_class \<Rightarrow> (string \<times> 'a) list \<Rightarrow> error option" where
  "call_new cls kwargs =
     (if ''cls'' \<in> set (map fst kwargs) then Some TypeError
      else
        (case find_origin_type (case cls of None \<Rightarrow> [] | Some bases \<Rightarrow> bases) of
           Some (TModel c) \<Rightarrow>
             (if invalid_fields c kwargs \<noteq> []
              then Some (ValueError (error_msg c (invalid_fields c kwargs)))
              else None)
         | Some (TNotAClass n) \<Rightarrow> Some TypeError
         | _ \<Rightarrow> None))"

definition call_init :: "(string \<times> 'a) list \<Rightarrow> error option" where
  "call_init kwargs = (if ''self'' \<in> set (map fst kwargs) then Some TypeError else None)"

definition construct :: "partial_class \<Rightarrow> (string \<times> 'a) list \<Rightarrow> error option" where
  "construct cls kwargs =
     (case call_new cls kwargs of Some e \<Rightarrow> Some e | None \<Rightarrow> call_init kwargs)"

definition Partial_new :: "partial_class \<Rightarrow> (string \<times> pyval) list \<Rightarrow> error + pyval" where
  "Partial_new cls kwargs =
     (case construct cls kwargs of Some e \<Rightarrow> Inl e | None \<Rightarrow> Inr (PPartial kwargs))"

text \<open>\<open>self.data\<close>\<close>

fun Partial_data :: "pyval \<Rightarrow> (string \<times> pyval) list" where
  "Partial_data (PPartial d) = d"
| "Partial_data v = []"

text \<open>The class \<open>Partial\<close> itself: \<open>class Partial(Generic[T])\<close>.\<close>

definition Partial_class :: partial_class where
  "Partial_class = Some [GenericT]"

text \<open>\<open>class TypedPartial(Partial[model_type]): __orig_bases__ = (Partial[model_type],)\<close>\<close>

definition create_typed_partial :: "type_arg \<Rightarrow> partial_class" where
  "create_typed_partial model_type = Some [PartialOf model_type]"

text \<open>
  \<open>Partial[X](**kwargs)\<close>. This step is Python's, not the module's: \<open>Partial[X]\<close> is an
  alias object of the \<open>typing\<close> module, and calling it calls its origin, the class
  \<open>Partial\<close>, with the same arguments. So \<open>__new__\<close> receives \<open>cls = Partial\<close>, whose
  \<open>__orig_bases__\<close> do not mention \<open>X\<close>.
\<close>

definition Partial_subscript :: "type_arg \<Rightarrow> (string \<times> pyval) list \<Rightarrow> error + pyval" where
  "Partial_subscript X kwargs = Partial_new Partial_class kwargs"

text \<open>\<open>f(**d)\<close>: every key of \<open>d\<close> has to be a string.\<close>

fun kwargs_of :: "(key \<times> 'a) list \<Rightarrow> error + (string \<times> 'a) list" where
  "kwargs_of [] = Inr []"
| "kwargs_of ((KStr s, v) # rest) =
     (case kwargs_of rest of Inl e \<Rightarrow> Inl e | Inr kw \<Rightarrow> Inr ((s, v) # kw))"
| "kwargs_of ((KInt i, v) # rest) = Inl TypeError"

section \<open>The merge helpers\<close>

text \<open>\<open>_merge_lists\<close>: the partial list replaces the original.\<close>

definition merge_lists :: "pyval list \<Rightarrow> pyval list \<Rightarrow> pyval list" where
  "merge_lists original partial = partial"

text \<open>
  \<open>_merge_dicts(original, partial)\<close>: the first argument is \<open>result\<close>, the copy of
  \<open>original\<close> that the loop over \<open>partial.items()\<close> updates. \<open>result[key] = v\<close> is
  \<open>AList.update\<close>: it replaces the value of a present key where it stands and appends an
  absent key.
\<close>

abbreviation entries_size :: "('a \<times> pyval) list \<Rightarrow> nat" where
  "entries_size \<equiv> size_list (size_prod (\<lambda>_. 0) size)"

function merge_dicts :: "(key \<times> pyval) list \<Rightarrow> (key \<times> pyval) list \<Rightarrow> (key \<times> pyval) list" where
  "merge_dicts result [] = result"
| "merge_dicts result ((k, v) # rest) =
     merge_dicts
       (AList.update k
          (case (map_of result k, v) of
             (Some (PDict a), PDict b) \<Rightarrow> PDict (merge_dicts a b)
           | _ \<Rightarrow> v)
          result)
       rest"
  by pat_completeness auto
termination
  by (relation "measure (\<lambda>(result, partial). entries_size partial)") auto

section \<open>Applying a patch: \<open>Partial.value\<close>\<close>

text \<open>
  \<open>int(idx_str)\<close> on a key of the \<open>items\<close> dictionary; \<open>None\<close> is the ValueError.
  An integer key is its own value. A string is read as a decimal literal: whitespace is
  dropped at both ends (tab, line feed, vertical tab, form feed, carriage return, space,
  and the two whitespace characters above 127, U+0085 and U+00A0), a sign may come first,
  then the digits \<open>0\<close> to \<open>9\<close>, where a single underscore may stand between two
  digits. No other character below 256 is a decimal digit or is dropped. (Python 3.11
  and later refuse a literal of more than 4300 digits with the same ValueError; its value
  is read here, and it lies beyond the length of any list a program holds.)
\<close>

definition is_space :: "char \<Rightarrow> bool" where
  "is_space c = (of_char c \<in> {9, 10, 11, 12, 13, 32, 133, 160 :: nat})"

definition is_digit :: "char \<Rightarrow> bool" where
  "is_digit c = (48 \<le> (of_char c :: nat) \<and> (of_char c :: nat) \<le> 57)"

definition digit_val :: "char \<Rightarrow> nat" where
  "digit_val c = of_char c - 48"

text \<open>Digits after the first one; a single underscore may stand between two digits.\<close>

fun more_digits :: "nat \<Rightarrow> string \<Rightarrow> nat option" where
  "more_digits acc [] = Some acc"
| "more_digits acc [c] = (if is_digit c then Some (10 * acc + digit_val c) else None)"
| "more_digits acc (c # d # cs) =
     (if is_digit c then more_digits (10 * acc + digit_val c) (d # cs)
      else if c = CHR ''_'' \<and> is_digit d then more_digits (10 * acc + digit_val d) cs
      else None)"

fun nat_literal :: "string \<Rightarrow> nat option" where
  "nat_literal [] = None"
| "nat_literal (c # cs) = (if is_digit c then more_digits (digit_val c) cs else None)"

definition strip :: "string \<Rightarrow> string" where
  "strip s = rev (dropWhile is_space (rev (dropWhile is_space s)))"

definition int_of_str :: "string \<Rightarrow> int option" where
  "int_of_str s =
     (case strip s of
        [] \<Rightarrow> None
      | c # cs \<Rightarrow>
          if c = CHR ''-'' then map_option (\<lambda>n. - int n) (nat_literal cs)
          else if c = CHR ''+'' then map_option int (nat_literal cs)
          else map_option int (nat_literal (c # cs)))"

fun py_int :: "key \<Rightarrow> int option" where
  "py_int (KInt i) = Some i"
| "py_int (KStr s) = int_of_str s"

text \<open>
  \<open>Partial.value\<close> and its workers. The first argument is \<open>self.data\<close>.
  \<^item> \<open>partial_base_model\<close>, \<open>partial_dict\<close> and \<open>partial_list_items\<close> are the
    three \<open>for\<close> loops: they carry \<open>result\<close> and the entries still to visit.
  \<^item> \<open>assign_attr\<close> is the \<open>if\<close>/\<open>elif\<close> chain of \<open>_partial_base_model\<close>: the value
    that \<open>setattr(result, key, ...)\<close> receives, from the patch's value and the
    attribute's current value. Every branch ends in that \<open>setattr\<close>, which raises for
    a name in \<open>readonly\<close>.
  \<^item> \<open>assign_item\<close> is the chain that \<open>_partial_dict\<close> and \<open>_partial_list\<close> share:
    the value that \<open>result[key] = ...\<close> receives.
  An exception leaves a loop at once, except in the loop over \<open>items\<close>, whose body
  stands in \<open>try ... except (ValueError, IndexError): continue\<close>.
\<close>

function Partial_value :: "(string \<times> pyval) list \<Rightarrow> pyval \<Rightarrow> error + pyval"
  and partial_base_model ::
    "(string \<times> pyval) list \<Rightarrow> model_class \<Rightarrow> (string \<times> pyval) list \<Rightarrow> error + pyval"
  and assign_attr :: "pyval \<Rightarrow> pyval \<Rightarrow> error + pyval"
  and partial_dict :: "(string \<times> pyval) list \<Rightarrow> (key \<times> pyval) list \<Rightarrow> error + pyval"
  and assign_item :: "pyval \<Rightarrow> pyval \<Rightarrow> error + pyval"
  and partial_list :: "(string \<times> pyval) list \<Rightarrow> pyval list \<Rightarrow> error + pyval"
  and partial_list_items :: "(key \<times> pyval) list \<Rightarrow> pyval list \<Rightarrow> error + pyval"
where
  "Partial_value data original =
     (case original of
        PModel c attrs \<Rightarrow> partial_base_model data c attrs
      | PDict d \<Rightarrow> partial_dict data d
      | PList xs \<Rightarrow> partial_list data xs
      | _ \<Rightarrow> Inr (case map_of data ''value'' of Some v \<Rightarrow> v | None \<Rightarrow> original))"
| "partial_base_model [] c result = Inr (PModel c result)"
| "partial_base_model ((k, v) # rest) c result =
     (case map_of result k of
        None \<Rightarrow> partial_base_model rest c result
      | Some original_value \<Rightarrow>
          (case assign_attr v original_value of
             Inl e \<Rightarrow> Inl e
           | Inr new \<Rightarrow>
               (case map_of (readonly c) k of
                  Some e \<Rightarrow> Inl e
                | None \<Rightarrow> partial_base_model rest c (AList.update k new result))))"
| "assign_attr v original_value =
     (case v of
        PPartial d \<Rightarrow>
          if is_complex original_value then Partial_value d original_value else Inr v
      | PList ys \<Rightarrow>
          (case original_value of
             PList xs \<Rightarrow> Inr (PList (merge_lists xs ys))
           | _ \<Rightarrow> Inr v)
      | PDict b \<Rightarrow>
          (case original_value of
             PDict a \<Rightarrow> Inr (PDict (merge_dicts a b))
           | PModel nested_class nested_attrs \<Rightarrow>
               (case kwargs_of b of
                  Inl e \<Rightarrow> Inl e
                | Inr kw \<Rightarrow>
                    (case Partial_new (create_typed_partial (TModel nested_class)) kw of
                       Inl e \<Rightarrow> Inl e
                     | Inr nested_partial \<Rightarrow>
                         Partial_value (Partial_data nested_partial) original_value))
           | _ \<Rightarrow> Inr v)
      | _ \<Rightarrow> Inr v)"
| "partial_dict [] result = Inr (PDict result)"
| "partial_dict ((k, v) # rest) result =
     (case map_of result (KStr k) of
        None \<Rightarrow> partial_dict rest (AList.update (KStr k) v result)
      | Some original_value \<Rightarrow>
          (case assign_item v original_value of
             Inl e \<Rightarrow> Inl e
           | Inr new \<Rightarrow> partial_dict rest (AList.update (KStr k) new result)))"
| "assign_item v original_value =
     (case v of
        PPartial d \<Rightarrow> Partial_value d original_value
      | PList ys \<Rightarrow>
          (case original_value of
             PList xs \<Rightarrow> Inr (PList (merge_lists xs ys))
           | _ \<Rightarrow> Inr v)
      | PDict b \<Rightarrow>
          (case original_value of
             PDict a \<Rightarrow> Inr (PDict (merge_dicts a b))
           | _ \<Rightarrow> Inr v)
      | _ \<Rightarrow> Inr v)"
| "partial_list data original =
     (case map_of data ''items'' of
        None \<Rightarrow> Inr (PList original)
      | Some (PDict partial_items) \<Rightarrow> partial_list_items partial_items original
      | Some (PList partial_items) \<Rightarrow> Inr (PList partial_items)
      | Some _ \<Rightarrow> Inr (PList original))"
| "partial_list_items [] result = Inr (PList result)"
| "partial_list_items ((idx_str, v) # rest) result =
     (case py_int idx_str of
        None \<Rightarrow> partial_list_items rest result
      | Some idx \<Rightarrow>
          if 0 \<le> idx \<and> idx < int (length result) then
            (case assign_item v (result ! nat idx) of
               Inl (ValueError msg) \<Rightarrow> partial_list_items rest result
             | Inl e \<Rightarrow> Inl e
             | Inr new \<Rightarrow> partial_list_items rest (result[nat idx := new]))
          else partial_list_items rest result)"
  by pat_completeness auto
termination
proof -
  have lookup: "size v < entries_size entries" if "map_of entries k = Some v"
    for entries :: "(string \<times> pyval) list" and k v
    using that by (induction entries) (auto split: if_splits)
  have kwargs: "entries_size kw = entries_size d" if "kwargs_of d = Inr kw"
    for d :: "(key \<times> pyval) list" and kw
    using that by (induction d arbitrary: kw rule: kwargs_of.induct) (auto split: sum.splits)
  have new: "entries_size (Partial_data p) = entries_size d"
    if "kwargs_of d = Inr kw" "Partial_new cls kw = Inr p"
    for d :: "(key \<times> pyval) list" and cls kw p
    using that kwargs by (auto simp: Partial_new_def split: option.splits)
  show ?thesis
    by (relation "measure (\<lambda>x. case x of
        Inl (Inl (data, original)) \<Rightarrow> 3 * entries_size data + 2
      | Inl (Inr (Inl (entries, c, result))) \<Rightarrow> 3 * entries_size entries
      | Inl (Inr (Inr (v, original_value))) \<Rightarrow> 3 * size v
      | Inr (Inl (Inl (entries, result))) \<Rightarrow> 3 * entries_size entries
      | Inr (Inl (Inr (v, original_value))) \<Rightarrow> 3 * size v
      | Inr (Inr (Inl (data, original))) \<Rightarrow> 3 * entries_size data + 1
      | Inr (Inr (Inr (entries, result))) \<Rightarrow> 3 * entries_size entries)")
      (auto dest: lookup new)
qed

text \<open>\<open>isinstance(v, dict)\<close>, \<open>isinstance(v, list)\<close>, \<open>isinstance(v, Partial)\<close>\<close>

fun is_dict :: "pyval \<Rightarrow> bool" where
  "is_dict (PDict d) = True"
| "is_dict v = False"

fun is_list :: "pyval \<Rightarrow> bool" where
  "is_list (PList xs) = True"
| "is_list v = False"

fun is_partial :: "pyval \<Rightarrow> bool" where
  "is_partial (PPartial d) = True"
| "is_partial v = False"

text \<open>
  How the loop of \<open>_partial_list\<close> reads an entry of the \<open>items\<close> dictionary, for a
  list of length \<open>n\<close>: \<open>in_bounds n\<close> holds when \<open>int(idx_str)\<close> succeeds and
  \<open>0 <= idx < n\<close>; \<open>addresses j\<close> when the index is \<open>j\<close>. \<open>item_step\<close> is one pass
  through the body for the element \<open>cur\<close>: the element after the pass, which is the
  element before it when the \<open>except\<close> clause took the error.
\<close>

definition in_bounds :: "nat \<Rightarrow> key \<times> pyval \<Rightarrow> bool" where
  "in_bounds n = (\<lambda>(idx_str, v).
     case py_int idx_str of None \<Rightarrow> False | Some idx \<Rightarrow> 0 \<le> idx \<and> idx < int n)"

definition addresses :: "nat \<Rightarrow> key \<times> pyval \<Rightarrow> bool" where
  "addresses j = (\<lambda>(idx_str, v). py_int idx_str = Some (int j))"

definition item_step :: "pyval \<Rightarrow> key \<times> pyval \<Rightarrow> pyval" where
  "item_step cur = (\<lambda>(idx_str, v).
     case assign_item v cur of Inr new \<Rightarrow> new | Inl e \<Rightarrow> cur)"

declare assign_attr.simps [simp del] assign_item.simps [simp del]
  Partial_value.simps [simp del] partial_list.simps [simp del]

section \<open>Store semantics: objects, references and assignment\<close>

text \<open>
  Whether \<open>Partial.value\<close> changes its argument is a question about objects, not about
  values, so the functions are translated a second time over an explicit store. The store
  is the list of the objects allocated so far and an address is an index into it; a new
  object is appended. Numbers, strings, booleans and \<open>None\<close> are immutable and stand
  for themselves, and so does \<open>HObject\<close>, an object of another class that the module
  takes as a unit (a function, a class, a bound method); a list, a dictionary, a record or
  a \<open>Partial\<close> object is held by reference. A reference to no object of the store is treated as \<open>HObject\<close> is:
  no \<open>isinstance\<close> test of the module holds of it.

  Every function takes the store and returns the store it leaves, also when it raises.
  The first argument \<open>n\<close> bounds the depth of the calls still allowed, as the
  interpreter's recursion limit does; a call that needs more raises \<open>RecursionError\<close>.
\<close>

type_synonym addr = nat

datatype hval = HNone | HBool bool | HInt int | HStr string | HObject string | HRef addr

datatype hobj =
    HList "hval list"
  | HDict "(key \<times> hval) list"
  | HModel model_class "(string \<times> hval) list"
  | HPartial "(string \<times> hval) list"

type_synonym heap = "hobj list"

text \<open>The object a value refers to, if any.\<close>

definition obj_at :: "heap \<Rightarrow> hval \<Rightarrow> hobj option" where
  "obj_at h v = (case v of HRef a \<Rightarrow> if a < length h then Some (h ! a) else None | _ \<Rightarrow> None)"

text \<open>\<open>isinstance(v, list)\<close>, \<open>isinstance(v, dict)\<close>\<close>

definition h_is_list :: "heap \<Rightarrow> hval \<Rightarrow> bool" where
  "h_is_list h v = (case obj_at h v of Some (HList xs) \<Rightarrow> True | _ \<Rightarrow> False)"

definition h_is_dict :: "heap \<Rightarrow> hval \<Rightarrow> bool" where
  "h_is_dict h v = (case obj_at h v of Some (HDict d) \<Rightarrow> True | _ \<Rightarrow> False)"

text \<open>
  The values an object holds (elements, dictionary values, attribute values), and the
  object of the same kind and the same keys holding other values.
\<close>

fun obj_values :: "hobj \<Rightarrow> hval list" where
  "obj_values (HList xs) = xs"
| "obj_values (HDict d) = map snd d"
| "obj_values (HModel c attrs) = map snd attrs"
| "obj_values (HPartial d) = map snd d"

fun obj_with :: "hobj \<Rightarrow> hval list \<Rightarrow> hobj" where
  "obj_with (HList xs) vs = HList vs"
| "obj_with (HDict d) vs = HDict (zip (map fst d) vs)"
| "obj_with (HModel c attrs) vs = HModel c (zip (map fst attrs) vs)"
| "obj_with (HPartial d) vs = HPartial (zip (map fst d) vs)"

text \<open>
  \<open>copy.deepcopy(x, memo)\<close>. An immutable value is its own copy. For an object the memo
  is looked up first; otherwise the empty copy is allocated and entered in the memo, the
  values the object holds are copied one after the other, and the copy is filled with
  them. \<open>copy_values\<close> is the loop over the values, for the copier \<open>cp\<close>.
\<close>

type_synonym memo = "(addr \<times> addr) list"

fun copy_values ::
  "(heap \<Rightarrow> memo \<Rightarrow> hval \<Rightarrow> heap \<times> memo \<times> (error + hval)) \<Rightarrow>
   heap \<Rightarrow> memo \<Rightarrow> hval list \<Rightarrow> heap \<times> memo \<times> (error + hval list)" where
  "copy_values cp h memo [] = (h, memo, Inr [])"
| "copy_values cp h memo (v # vs) =
     (case cp h memo v of
        (h1, memo1, Inl e) \<Rightarrow> (h1, memo1, Inl e)
      | (h1, memo1, Inr v') \<Rightarrow>
          (case copy_values cp h1 memo1 vs of
             (h2, memo2, Inl e) \<Rightarrow> (h2, memo2, Inl e)
           | (h2, memo2, Inr vs') \<Rightarrow> (h2, memo2, Inr (v' # vs'))))"

primrec deepcopy :: "nat \<Rightarrow> heap \<Rightarrow> memo \<Rightarrow> hval \<Rightarrow> heap \<times> memo \<times> (error + hval)" where
  "deepcopy 0 h memo v =
     (case obj_at h v of None \<Rightarrow> (h, memo, Inr v) | Some obj \<Rightarrow> (h, memo, Inl RecursionError))"
| "deepcopy (Suc n) h memo v =
     (case v of
        HRef a \<Rightarrow>
          (case map_of memo a of
             Some b \<Rightarrow> (h, memo, Inr (HRef b))
           | None \<Rightarrow>
               (case obj_at h v of
                  None \<Rightarrow> (h, memo, Inr v)
                | Some obj \<Rightarrow>
                    (case copy_values (deepcopy n) (h @ [obj_with obj []]) ((a, length h) # memo)
                            (obj_values obj) of
                       (h2, memo2, Inl e) \<Rightarrow> (h2, memo2, Inl e)
                     | (h2, memo2, Inr vs) \<Rightarrow>
                         (h2[length h := obj_with obj vs], memo2, Inr (HRef (length h))))))
      | _ \<Rightarrow> (h, memo, Inr v))"

text \<open>
  The three assignments of the module: \<open>result[key] = v\<close> on a dictionary,
  \<open>setattr(result, key, v)\<close> on a record, \<open>result[idx] = v\<close> on a list. They write to
  the object at the address \<open>ra\<close>.
\<close>

definition setitem :: "heap \<Rightarrow> addr \<Rightarrow> key \<Rightarrow> hval \<Rightarrow> heap" where
  "setitem h ra k v =
     (case obj_at h (HRef ra) of
        Some (HDict d) \<Rightarrow> h[ra := HDict (AList.update k v d)]
      | _ \<Rightarrow> h)"

definition setattr :: "heap \<Rightarrow> addr \<Rightarrow> string \<Rightarrow> hval \<Rightarrow> heap" where
  "setattr h ra k v =
     (case obj_at h (HRef ra) of
        Some (HModel c attrs) \<Rightarrow> h[ra := HModel c (AList.update k v attrs)]
      | _ \<Rightarrow> h)"

definition setindex :: "heap \<Rightarrow> addr \<Rightarrow> nat \<Rightarrow> hval \<Rightarrow> heap" where
  "setindex h ra i v =
     (case obj_at h (HRef ra) of
        Some (HList xs) \<Rightarrow> h[ra := HList (xs[i := v])]
      | _ \<Rightarrow> h)"

text \<open>
  \<open>_merge_dicts(original, partial)\<close>: \<open>result\<close> is the deep copy of \<open>original\<close>, at
  the address \<open>ra\<close>; the loop goes over the entries of \<open>partial\<close>, reads \<open>result\<close>
  from the store at every pass and assigns to it. \<open>_merge_lists\<close> returns \<open>partial\<close>,
  that is the reference it was given.
\<close>

fun h_merge_loop ::
  "(heap \<Rightarrow> hval \<Rightarrow> hval \<Rightarrow> heap \<times> (error + hval)) \<Rightarrow>
   heap \<Rightarrow> addr \<Rightarrow> (key \<times> hval) list \<Rightarrow> heap \<times> (error + hval)" where
  "h_merge_loop rec h ra [] = (h, Inr (HRef ra))"
| "h_merge_loop rec h ra ((k, v) # rest) =
     (case obj_at h (HRef ra) of
        Some (HDict result) \<Rightarrow>
          (case map_of result k of
             Some ov \<Rightarrow>
               if h_is_dict h ov \<and> h_is_dict h v then
                 (case rec h ov v of
                    (h1, Inl e) \<Rightarrow> (h1, Inl e)
                  | (h1, Inr merged) \<Rightarrow> h_merge_loop rec (setitem h1 ra k merged) ra rest)
               else h_merge_loop rec (setitem h ra k v) ra rest
           | None \<Rightarrow> h_merge_loop rec (setitem h ra k v) ra rest)
      | _ \<Rightarrow> (h, Inl TypeError))"

primrec h_merge_dicts :: "nat \<Rightarrow> heap \<Rightarrow> hval \<Rightarrow> hval \<Rightarrow> heap \<times> (error + hval)" where
  "h_merge_dicts 0 h original partial = (h, Inl RecursionError)"
| "h_merge_dicts (Suc n) h original partial =
     (case deepcopy n h [] original of
        (h1, memo, Inl e) \<Rightarrow> (h1, Inl e)
      | (h1, memo, Inr result) \<Rightarrow>
          (case (result, obj_at h1 partial) of
             (HRef ra, Some (HDict entries)) \<Rightarrow> h_merge_loop (h_merge_dicts n) h1 ra entries
           | _ \<Rightarrow> (h1, Inl TypeError)))"

text \<open>
  The two \<open>if\<close>/\<open>elif\<close> chains, as in the value semantics; \<open>rec\<close> is
  \<open>Partial.value\<close> at the depth below, given the \<open>data\<close> of the patch. In the branch
  for a nested record, \<open>create_typed_partial(nested_class)(**value)\<close> is the call
  \<open>construct\<close> of the value semantics; when it returns, the new \<open>Partial\<close> object is
  in the store.
\<close>

type_synonym apply_fn = "heap \<Rightarrow> (string \<times> hval) list \<Rightarrow> hval \<Rightarrow> heap \<times> (error + hval)"

definition h_assign_item :: "apply_fn \<Rightarrow> nat \<Rightarrow> heap \<Rightarrow> hval \<Rightarrow> hval \<Rightarrow> heap \<times> (error + hval)" where
  "h_assign_item rec n h v original_value =
     (case obj_at h v of
        Some (HPartial d) \<Rightarrow> rec h d original_value
      | _ \<Rightarrow>
          if h_is_list h original_value \<and> h_is_list h v then (h, Inr v)
          else if h_is_dict h original_value \<and> h_is_dict h v then h_merge_dicts n h original_value v
          else (h, Inr v))"

definition h_assign_attr :: "apply_fn \<Rightarrow> nat \<Rightarrow> heap \<Rightarrow> hval \<Rightarrow> hval \<Rightarrow> heap \<times> (error + hval)" where
  "h_assign_attr rec n h v original_value =
     (case (obj_at h v, obj_at h original_value) of
        (Some (HPartial d), Some obj) \<Rightarrow>
          (case obj of HPartial d' \<Rightarrow> (h, Inr v) | _ \<Rightarrow> rec h d original_value)
      | (Some (HList ys), Some (HList xs)) \<Rightarrow> (h, Inr v)
      | (Some (HDict b), Some (HDict a)) \<Rightarrow> h_merge_dicts n h original_value v
      | (Some (HDict b), Some (HModel nested_class nested_attrs)) \<Rightarrow>
          (case kwargs_of b of
             Inl e \<Rightarrow> (h, Inl e)
           | Inr kw \<Rightarrow>
               (case construct (create_typed_partial (TModel nested_class)) kw of
                  Some e \<Rightarrow> (h, Inl e)
                | None \<Rightarrow> rec (h @ [HPartial kw]) kw original_value))
      | _ \<Rightarrow> (h, Inr v))"

text \<open>
  The three loops. Each reads \<open>result\<close> from the store at every pass, and goes over
  the entries the patch had when the loop began: the assignments of a pass are written out
  below, and they are to \<open>result\<close> only. \<open>setattr\<close> raises for a name in \<open>readonly\<close>
  and writes nothing then.
\<close>

fun h_base_model_loop ::
  "apply_fn \<Rightarrow> nat \<Rightarrow> heap \<Rightarrow> addr \<Rightarrow> (string \<times> hval) list \<Rightarrow> heap \<times> (error + hval)" where
  "h_base_model_loop rec n h ra [] = (h, Inr (HRef ra))"
| "h_base_model_loop rec n h ra ((k, v) # rest) =
     (case obj_at h (HRef ra) of
        Some (HModel c result) \<Rightarrow>
          (case map_of result k of
             None \<Rightarrow> h_base_model_loop rec n h ra rest
           | Some original_value \<Rightarrow>
               (case h_assign_attr rec n h v original_value of
                  (h1, Inl e) \<Rightarrow> (h1, Inl e)
                | (h1, Inr new) \<Rightarrow>
                    (case map_of (readonly c) k of
                       Some e \<Rightarrow> (h1, Inl e)
                     | None \<Rightarrow> h_base_model_loop rec n (setattr h1 ra k new) ra rest)))
      | _ \<Rightarrow> (h, Inl TypeError))"

fun h_dict_loop ::
  "apply_fn \<Rightarrow> nat \<Rightarrow> heap \<Rightarrow> addr \<Rightarrow> (string \<times> hval) list \<Rightarrow> heap \<times> (error + hval)" where
  "h_dict_loop rec n h ra [] = (h, Inr (HRef ra))"
| "h_dict_loop rec n h ra ((k, v) # rest) =
     (case obj_at h (HRef ra) of
        Some (HDict result) \<Rightarrow>
          (case map_of result (KStr k) of
             None \<Rightarrow> h_dict_loop rec n (setitem h ra (KStr k) v) ra rest
           | Some original_value \<Rightarrow>
               (case h_assign_item rec n h v original_value of
                  (h1, Inl e) \<Rightarrow> (h1, Inl e)
                | (h1, Inr new) \<Rightarrow> h_dict_loop rec n (setitem h1 ra (KStr k) new) ra rest))
      | _ \<Rightarrow> (h, Inl TypeError))"

fun h_items_loop ::
  "apply_fn \<Rightarrow> nat \<Rightarrow> heap \<Rightarrow> addr \<Rightarrow> (key \<times> hval) list \<Rightarrow> heap \<times> (error + hval)" where
  "h_items_loop rec n h ra [] = (h, Inr (HRef ra))"
| "h_items_loop rec n h ra ((idx_str, v) # rest) =
     (case obj_at h (HRef ra) of
        Some (HList result) \<Rightarrow>
          (case py_int idx_str of
             None \<Rightarrow> h_items_loop rec n h ra rest
           | Some idx \<Rightarrow>
               if 0 \<le> idx \<and> idx < int (length result) then
                 (case h_assign_item rec n h v (result ! nat idx) of
                    (h1, Inl (ValueError msg)) \<Rightarrow> h_items_loop rec n h1 ra rest
                  | (h1, Inl e) \<Rightarrow> (h1, Inl e)
                  | (h1, Inr new) \<Rightarrow> h_items_loop rec n (setindex h1 ra (nat idx) new) ra rest)
               else h_items_loop rec n h ra rest)
      | _ \<Rightarrow> (h, Inl TypeError))"

text \<open>
  \<open>_partial_base_model\<close>, \<open>_partial_dict\<close> and \<open>_partial_list\<close>: the deep copy,
  then the loop on the copy. \<open>_partial_list\<close> returns \<open>original\<close> itself when the patch
  has no \<open>items\<close>, and the \<open>items\<close> list itself when it is a list.
\<close>

definition h_partial_base_model :: "apply_fn \<Rightarrow> nat \<Rightarrow> heap \<Rightarrow> (string \<times> hval) list \<Rightarrow> hval \<Rightarrow> heap \<times> (error + hval)" where
  "h_partial_base_model rec n h data original =
     (case deepcopy n h [] original of
        (h1, memo, Inl e) \<Rightarrow> (h1, Inl e)
      | (h1, memo, Inr (HRef ra)) \<Rightarrow> h_base_model_loop rec n h1 ra data
      | (h1, memo, Inr result) \<Rightarrow> (h1, Inl TypeError))"

definition h_partial_dict :: "apply_fn \<Rightarrow> nat \<Rightarrow> heap \<Rightarrow> (string \<times> hval) list \<Rightarrow> hval \<Rightarrow> heap \<times> (error + hval)" where
  "h_partial_dict rec n h data original =
     (case deepcopy n h [] original of
        (h1, memo, Inl e) \<Rightarrow> (h1, Inl e)
      | (h1, memo, Inr (HRef ra)) \<Rightarrow> h_dict_loop rec n h1 ra data
      | (h1, memo, Inr result) \<Rightarrow> (h1, Inl TypeError))"

definition h_partial_list :: "apply_fn \<Rightarrow> nat \<Rightarrow> heap \<Rightarrow> (string \<times> hval) list \<Rightarrow> hval \<Rightarrow> heap \<times> (error + hval)" where
  "h_partial_list rec n h data original =
     (case map_of data ''items'' of
        None \<Rightarrow> (h, Inr original)
      | Some partial_items \<Rightarrow>
          (case deepcopy n h [] original of
             (h1, memo, Inl e) \<Rightarrow> (h1, Inl e)
           | (h1, memo, Inr result) \<Rightarrow>
               (case obj_at h1 partial_items of
                  Some (HDict entries) \<Rightarrow>
                    (case result of
                       HRef ra \<Rightarrow> h_items_loop rec n h1 ra entries
                     | _ \<Rightarrow> (h1, Inl TypeError))
                | Some (HList ys) \<Rightarrow> (h1, Inr partial_items)
                | _ \<Rightarrow> (h1, Inr result))))"

text \<open>\<open>Partial.value\<close>, given \<open>self.data\<close>; then given \<open>self\<close>, a reference to the patch.\<close>

primrec h_Partial_value :: "nat \<Rightarrow> heap \<Rightarrow> (string \<times> hval) list \<Rightarrow> hval \<Rightarrow> heap \<times> (error + hval)" where
  "h_Partial_value 0 h data original = (h, Inl RecursionError)"
| "h_Partial_value (Suc n) h data original =
     (case obj_at h original of
        Some (HModel c attrs) \<Rightarrow> h_partial_base_model (h_Partial_value n) n h data original
      | Some (HDict d) \<Rightarrow> h_partial_dict (h_Partial_value n) n h data original
      | Some (HList xs) \<Rightarrow> h_partial_list (h_Partial_value n) n h data original
      | _ \<Rightarrow> (h, Inr (case map_of data ''value'' of Some v \<Rightarrow> v | None \<Rightarrow> original)))"

definition h_value :: "nat \<Rightarrow> heap \<Rightarrow> hval \<Rightarrow> hval \<Rightarrow> heap \<times> (error + hval)" where
  "h_value fuel h self original =
     (case obj_at h self of
        Some (HPartial data) \<Rightarrow> h_Partial_value fuel h data original
      | _ \<Rightarrow> (h, Inl TypeError))"

section \<open>From the store to values\<close>

text \<open>
  The value that a reference stands for, read from the store down to the depth \<open>n\<close>;
  \<open>None\<close> when the structure is deeper or a reference leads nowhere. It is what an
  observer of the object sees: its attributes, entries and elements, recursively.
\<close>

fun entries_of :: "'k list \<Rightarrow> pyval option list \<Rightarrow> ('k \<times> pyval) list option" where
  "entries_of ks vs = map_option (zip ks) (those vs)"

primrec reify :: "nat \<Rightarrow> heap \<Rightarrow> hval \<Rightarrow> pyval option" where
  "reify 0 h v =
     (case v of
        HNone \<Rightarrow> Some PNone | HBool b \<Rightarrow> Some (PBool b) | HInt i \<Rightarrow> Some (PInt i)
      | HStr s \<Rightarrow> Some (PStr s) | HObject s \<Rightarrow> Some (PObject s) | HRef a \<Rightarrow> None)"
| "reify (Suc n) h v =
     (case v of
        HNone \<Rightarrow> Some PNone | HBool b \<Rightarrow> Some (PBool b) | HInt i \<Rightarrow> Some (PInt i)
      | HStr s \<Rightarrow> Some (PStr s) | HObject s \<Rightarrow> Some (PObject s)
      | HRef a \<Rightarrow>
          (case obj_at h v of
             None \<Rightarrow> None
           | Some (HList xs) \<Rightarrow> map_option PList (those (map (reify n h) xs))
           | Some (HDict d) \<Rightarrow>
               map_option PDict (entries_of (map fst d) (map (reify n h) (map snd d)))
           | Some (HModel c attrs) \<Rightarrow>
               map_option (PModel c) (entries_of (map fst attrs) (map (reify n h) (map snd attrs)))
           | Some (HPartial d) \<Rightarrow>
               map_option PPartial (entries_of (map fst d) (map (reify n h) (map snd d)))))"

text \<open>
  An example: the record \<open>User(name="a", tags=[1, 2])\<close> at address 0, its list at 1,
  the patch \<open>Partial(name="b", tags=[7])\<close> at 2, the list of the patch at 3. The call
  allocates the copy of the record and of its list, and writes to the copy only; the result
  shares the list of the patch. Read back as values, the result is what the value semantics
  gives.
\<close>

definition example_heap :: heap where
  "example_heap =
     [HModel (ModelClass ''User'' [''name'', ''tags''] []) [(''name'', HStr ''a''), (''tags'', HRef 1)],
      HList [HInt 1, HInt 2],
      HPartial [(''name'', HStr ''b''), (''tags'', HRef 3)],
      HList [HInt 7]]"

section \<open>Predicates on stores\<close>

text \<open>
  \<open>unchanged n h h'\<close>: the store \<open>h'\<close> extends \<open>h\<close> and holds at every address below
  \<open>n\<close> the object \<open>h\<close> holds there.
\<close>

definition unchanged :: "nat \<Rightarrow> heap \<Rightarrow> heap \<Rightarrow> bool" where
  "unchanged n h h' \<longleftrightarrow> length h \<le> length h' \<and> take n h' = take n h"

text \<open>
  A memo is fresh for \<open>n0\<close> when every copy it records lies at \<open>n0\<close> or above.
  \<open>copy_ok\<close> is what a copier keeps: the objects it found, and the freshness of the memo.
\<close>

definition fresh :: "nat \<Rightarrow> memo \<Rightarrow> bool" where
  "fresh n0 memo = list_all (\<lambda>(a, b). n0 \<le> b) memo"

definition copy_ok :: "nat \<Rightarrow> heap \<Rightarrow> memo \<Rightarrow> heap \<times> memo \<times> (error + 'a) \<Rightarrow> bool" where
  "copy_ok n0 h memo out =
     (case out of (h', memo', r) \<Rightarrow> unchanged (length h) h h' \<and> fresh n0 memo')"

text \<open>\<open>frame_fn rec\<close>: a call of \<open>rec\<close> changes no object of the store it is given.\<close>

definition frame_fn :: "apply_fn \<Rightarrow> bool" where
  "frame_fn rec \<longleftrightarrow> (\<forall>h d v. unchanged (length h) h (fst (rec h d v)))"

section \<open>Lemmas on the loops of the value semantics\<close>

lemma keys_update_present:
  "map_of al k = Some v \<Longrightarrow> map fst (AList.update k w al) = map fst al"
  by (induction al) (auto split: if_splits)

text \<open>
  The loop over a record keeps the class and the attribute names, and leaves alone every
  attribute the patch does not name.
\<close>

lemma base_model_frame:
  "partial_base_model data c attrs = Inr r \<Longrightarrow>
   \<exists>attrs'. r = PModel c attrs' \<and> map fst attrs' = map fst attrs \<and>
     (\<forall>g. g \<notin> fst ` set data \<longrightarrow> map_of attrs' g = map_of attrs g)"
proof (induction data arbitrary: attrs)
  case Nil
  then show ?case by auto
next
  case (Cons e data)
  obtain k v where e: "e = (k, v)" by (cases e)
  show ?case
  proof (cases "map_of attrs k")
    case None
    with Cons.prems e have "partial_base_model data c attrs = Inr r" by simp
    from Cons.IH[OF this] show ?thesis by (auto simp: e)
  next
    case (Some ov)
    with Cons.prems e obtain new where
      new: "assign_attr v ov = Inr new" and
      rest: "partial_base_model data c (AList.update k new attrs) = Inr r"
      by (auto split: sum.splits option.splits)
    from Cons.IH[OF rest] obtain attrs' where
      a: "r = PModel c attrs'" "map fst attrs' = map fst (AList.update k new attrs)"
         "\<forall>g. g \<notin> fst ` set data \<longrightarrow> map_of attrs' g = map_of (AList.update k new attrs) g"
      by blast
    have "map fst attrs' = map fst attrs"
      using a(2) keys_update_present[OF Some] by simp
    moreover have "\<forall>g. g \<notin> fst ` set (e # data) \<longrightarrow> map_of attrs' g = map_of attrs g"
      using a(3) by (auto simp: e update_conv')
    ultimately show ?thesis using a(1) by blast
  qed
qed

text \<open>An entry whose key is not an attribute changes nothing, wherever it stands.\<close>

lemma base_model_skip:
  "y \<notin> fst ` set attrs \<Longrightarrow>
   partial_base_model (pre @ (y, v) # post) c attrs = partial_base_model (pre @ post) c attrs"
proof (induction pre arbitrary: attrs)
  case Nil
  then have "map_of attrs y = None" by (simp add: map_of_eq_None_iff)
  then show ?case by simp
next
  case (Cons e pre)
  obtain k w where e: "e = (k, w)" by (cases e)
  show ?case
  proof (cases "map_of attrs k")
    case None
    then show ?thesis using Cons by (simp add: e)
  next
    case (Some ov)
    have "\<And>new. y \<notin> fst ` set (AList.update k new attrs)"
    proof -
      fix new
      have "set (map fst (AList.update k new attrs)) = set (map fst attrs)"
        using keys_update_present[OF Some] by simp
      then show "y \<notin> fst ` set (AList.update k new attrs)"
        using Cons.prems by simp
    qed
    then show ?thesis using Some Cons.IH by (simp add: e split: sum.splits option.splits)
  qed
qed

text \<open>The loop over a dictionary touches only the keys of the patch.\<close>

lemma partial_dict_other_key:
  "partial_dict entries result = Inr (PDict r) \<Longrightarrow> k \<notin> fst ` set entries \<Longrightarrow>
   map_of r (KStr k) = map_of result (KStr k)"
proof (induction entries arbitrary: result)
  case Nil
  then show ?case by simp
next
  case (Cons e entries)
  obtain k' v where e: "e = (k', v)" by (cases e)
  with Cons.prems have ne: "k' \<noteq> k" and nin: "k \<notin> fst ` set entries" by auto
  from Cons.prems(1) e obtain new where
    "partial_dict entries (AList.update (KStr k') new result) = Inr (PDict r)"
    by (auto split: option.splits sum.splits)
  from Cons.IH[OF this nin] ne show ?case by (simp add: update_conv')
qed

lemma partial_dict_absent_key:
  "distinct (map fst data) \<Longrightarrow> (k, v) \<in> set data \<Longrightarrow> map_of m (KStr k) = None \<Longrightarrow>
   partial_dict data m = Inr (PDict r) \<Longrightarrow> map_of r (KStr k) = Some v"
proof (induction data arbitrary: m)
  case Nil
  then show ?case by simp
next
  case (Cons e data)
  obtain k' v' where e: "e = (k', v')" by (cases e)
  show ?case
  proof (cases "k' = k")
    case True
    with Cons.prems e have v: "v' = v" and nin: "k \<notin> fst ` set data"
      by (auto simp: image_iff)
    from Cons.prems e True v have
      "partial_dict data (AList.update (KStr k) v m) = Inr (PDict r)" by simp
    from partial_dict_other_key[OF this nin] show ?thesis by (simp add: update_conv')
  next
    case False
    with Cons.prems e have mem: "(k, v) \<in> set data" and d: "distinct (map fst data)" by auto
    from Cons.prems(4) e obtain new where
      rest: "partial_dict data (AList.update (KStr k') new m) = Inr (PDict r)"
      by (auto split: option.splits sum.splits)
    have "map_of (AList.update (KStr k') new m) (KStr k) = None"
      using False Cons.prems(3) by (simp add: update_conv')
    from Cons.IH[OF d mem this rest] show ?thesis .
  qed
qed

lemmas py_int_simps = int_of_str_def strip_def is_space_def is_digit_def digit_val_def

subsection \<open>Construction\<close>

lemma Partial_new_typed:
  "Partial_new (create_typed_partial (TModel c)) kw =
     (if ''cls'' \<in> set (map fst kw) then Inl TypeError
      else if invalid_fields c kw \<noteq> []
        then Inl (ValueError (error_msg c (invalid_fields c kw)))
      else if ''self'' \<in> set (map fst kw) then Inl TypeError
      else Inr (PPartial kw))"
  by (simp add: Partial_new_def construct_def call_new_def call_init_def create_typed_partial_def)

lemma Partial_new_unbound:
  "find_origin_type bases = None \<Longrightarrow>
   Partial_new (Some bases) kw =
     (if ''cls'' \<in> set (map fst kw) \<or> ''self'' \<in> set (map fst kw) then Inl TypeError
      else Inr (PPartial kw))"
  by (simp add: Partial_new_def construct_def call_new_def call_init_def)


lemma invalid_fields_empty_iff:
  "invalid_fields c kw = [] \<longleftrightarrow> fst ` set kw \<subseteq> set (type_hints c)"
  by (auto simp: invalid_fields_def filter_empty_conv)


lemma assign_attr_not_strings:
  "kwargs_of b = Inl e \<Longrightarrow> assign_attr (PDict b) (PModel nc nattrs) = Inl e"
  by (simp add: assign_attr.simps)



subsection \<open>\<open>_merge_dicts\<close>\<close>

lemma merge_dicts_lookup:
  "distinct (map fst b) \<Longrightarrow>
   map_of (merge_dicts a b) k =
     (case map_of b k of
        None \<Rightarrow> map_of a k
      | Some v \<Rightarrow> Some (case (map_of a k, v) of
                        (Some (PDict a'), PDict b') \<Rightarrow> PDict (merge_dicts a' b')
                      | _ \<Rightarrow> v))"
proof (induction b arbitrary: a)
  case Nil
  then show ?case by simp
next
  case (Cons e b)
  obtain k' v' where e: "e = (k', v')" by (cases e)
  from Cons.prems e have nin: "map_of b k' = None" and d: "distinct (map fst b)"
    by (auto simp: map_of_eq_None_iff)
  show ?case
    using nin by (simp add: e Cons.IH[OF d] update_conv' split: option.splits)
qed

subsection \<open>The loop over \<open>items\<close>\<close>

lemma assign_item_plain:
  "\<not> is_partial v \<Longrightarrow>
   assign_item v ov =
     Inr (case (ov, v) of
            (PList xs, PList ys) \<Rightarrow> PList ys
          | (PDict a, PDict b) \<Rightarrow> PDict (merge_dicts a b)
          | _ \<Rightarrow> v)"
  by (cases v; cases ov) (simp_all add: assign_item.simps merge_lists_def)

lemma not_in_bounds_skip:
  "\<not> in_bounds (length res) (k, v) \<Longrightarrow>
   partial_list_items ((k, v) # rest) res = partial_list_items rest res"
  by (auto simp: in_bounds_def split: option.splits)

lemma in_bounds_step:
  "in_bounds (length res) (k, v) \<Longrightarrow>
   \<exists>i<length res. py_int k = Some (int i) \<and>
     partial_list_items ((k, v) # rest) res =
       (case assign_item v (res ! i) of
          Inl (ValueError msg) \<Rightarrow> partial_list_items rest res
        | Inl e \<Rightarrow> Inl e
        | Inr new \<Rightarrow> partial_list_items rest (res[i := new]))"
proof -
  assume "in_bounds (length res) (k, v)"
  then obtain idx where idx: "py_int k = Some idx" "0 \<le> idx" "idx < int (length res)"
    by (auto simp: in_bounds_def split: option.splits)
  then have "nat idx < length res" "py_int k = Some (int (nat idx))" by auto
  moreover have "partial_list_items ((k, v) # rest) res =
       (case assign_item v (res ! nat idx) of
          Inl (ValueError msg) \<Rightarrow> partial_list_items rest res
        | Inl e \<Rightarrow> Inl e
        | Inr new \<Rightarrow> partial_list_items rest (res[nat idx := new]))"
    using idx by simp
  ultimately show ?thesis by blast
qed

lemma addresses_in_bounds:
  "j < n \<Longrightarrow> addresses j e \<Longrightarrow> in_bounds n e"
  by (cases e) (simp add: addresses_def in_bounds_def)

lemma items_skip_filter:
  "partial_list_items entries res = partial_list_items (filter (in_bounds (length res)) entries) res"
proof (induction entries arbitrary: res)
  case Nil
  then show ?case by simp
next
  case (Cons e entries)
  obtain k v where e: "e = (k, v)" by (cases e)
  show ?case
  proof (cases "in_bounds (length res) (k, v)")
    case False
    then show ?thesis using Cons.IH[of res] by (simp add: e not_in_bounds_skip del: partial_list_items.simps)
  next
    case True
    from in_bounds_step[OF True, of entries] in_bounds_step[OF True, of "filter (in_bounds (length res)) entries"]
    obtain i where i: "i < length res" "py_int k = Some (int i)"
      "partial_list_items ((k, v) # entries) res =
       (case assign_item v (res ! i) of
          Inl (ValueError msg) \<Rightarrow> partial_list_items entries res
        | Inl e \<Rightarrow> Inl e
        | Inr new \<Rightarrow> partial_list_items entries (res[i := new]))"
      "partial_list_items ((k, v) # filter (in_bounds (length res)) entries) res =
       (case assign_item v (res ! i) of
          Inl (ValueError msg) \<Rightarrow> partial_list_items (filter (in_bounds (length res)) entries) res
        | Inl e \<Rightarrow> Inl e
        | Inr new \<Rightarrow> partial_list_items (filter (in_bounds (length res)) entries) (res[i := new]))"
      by auto
    show ?thesis
      using True i(3,4) Cons.IH[of res] Cons.IH[of "res[i := _]"]
      by (simp add: e split: sum.splits error.splits)
  qed
qed

lemma items_elementwise:
  "partial_list_items entries res = Inr (PList r) \<Longrightarrow>
   length r = length res \<and>
   (\<forall>j<length res. r ! j = foldl item_step (res ! j) (filter (addresses j) entries))"
proof (induction entries arbitrary: res)
  case Nil
  then show ?case by auto
next
  case (Cons e entries)
  obtain k v where e: "e = (k, v)" by (cases e)
  show ?case
  proof (cases "in_bounds (length res) (k, v)")
    case False
    then have "\<And>j. j < length res \<Longrightarrow> \<not> addresses j e"
      using addresses_in_bounds e by blast
    moreover from False Cons.prems have "partial_list_items entries res = Inr (PList r)"
      by (simp add: e not_in_bounds_skip del: partial_list_items.simps)
    ultimately show ?thesis using Cons.IH by simp
  next
    case True
    from in_bounds_step[OF True, of entries] obtain i where
      i: "i < length res" "py_int k = Some (int i)" and
      step: "partial_list_items ((k, v) # entries) res =
       (case assign_item v (res ! i) of
          Inl (ValueError msg) \<Rightarrow> partial_list_items entries res
        | Inl e \<Rightarrow> Inl e
        | Inr new \<Rightarrow> partial_list_items entries (res[i := new]))"
      by auto
    have ai: "addresses i e" and aj: "\<And>j. j \<noteq> i \<Longrightarrow> \<not> addresses j e"
      using i(2) by (simp_all add: e addresses_def)
    show ?thesis
    proof (cases "assign_item v (res ! i)")
      case (Inl err)
      with step Cons.prems e have rest: "partial_list_items entries res = Inr (PList r)"
        by (cases err) simp_all
      have st: "item_step (res ! i) e = res ! i" by (simp add: item_step_def e Inl)
      from Cons.IH[OF rest] have
        len: "length r = length res" and
        el: "\<forall>j<length res. r ! j = foldl item_step (res ! j) (filter (addresses j) entries)"
        by auto
      have "\<forall>j<length res. r ! j = foldl item_step (res ! j) (filter (addresses j) (e # entries))"
      proof (intro allI impI)
        fix j assume "j < length res"
        then show "r ! j = foldl item_step (res ! j) (filter (addresses j) (e # entries))"
          using el ai aj st by (cases "j = i") simp_all
      qed
      with len show ?thesis by simp
    next
      case (Inr new)
      with step Cons.prems e have rest: "partial_list_items entries (res[i := new]) = Inr (PList r)"
        by simp
      have st: "item_step (res ! i) e = new" by (simp add: item_step_def e Inr)
      from Cons.IH[OF rest] have
        len: "length r = length res" and
        el: "\<forall>j<length res. r ! j = foldl item_step (res[i := new] ! j) (filter (addresses j) entries)"
        by auto
      have "\<forall>j<length res. r ! j = foldl item_step (res ! j) (filter (addresses j) (e # entries))"
      proof (intro allI impI)
        fix j assume "j < length res"
        then show "r ! j = foldl item_step (res ! j) (filter (addresses j) (e # entries))"
          using el ai aj st by (cases "j = i") simp_all
      qed
      with len show ?thesis by simp
    qed
  qed
qed

lemma items_plain_total:
  "\<forall>e \<in> set entries. \<not> is_partial (snd e) \<Longrightarrow> \<exists>r. partial_list_items entries res = Inr (PList r)"
proof (induction entries arbitrary: res)
  case Nil
  then show ?case by simp
next
  case (Cons e entries)
  obtain k v where e: "e = (k, v)" by (cases e)
  from Cons.prems e have v: "\<not> is_partial v" and rest: "\<forall>e \<in> set entries. \<not> is_partial (snd e)"
    by auto
  show ?case
  proof (cases "in_bounds (length res) (k, v)")
    case False
    then show ?thesis using Cons.IH[OF rest] by (simp add: e not_in_bounds_skip del: partial_list_items.simps)
  next
    case True
    from in_bounds_step[OF True, of entries] show ?thesis
      using Cons.IH[OF rest] by (auto simp: e assign_item_plain[OF v])
  qed
qed

section \<open>Properties of the value semantics\<close>

text \<open>
  Claim C2 (identity patch). A patch with no override applied to a record, to a mapping
  or to a sequence returns a value structurally equal to the original.
\<close>

theorem identity_patch:
  "Partial_value [] (PModel c attrs) = Inr (PModel c attrs) \<and>
   Partial_value [] (PDict d) = Inr (PDict d) \<and>
   Partial_value [] (PList xs) = Inr (PList xs)"
  by (simp add: Partial_value.simps partial_list.simps)

text \<open>
  Claim C3, as the code has it. When the key \<open>k\<close> of an override that is a
  \<open>Partial\<close> object is absent from the mapping, the \<open>else\<close> branch of \<open>_partial_dict\<close>
  stores the override as it is: the entry at \<open>k\<close> in the result is the \<open>Partial\<close> object
  itself, and nothing is applied. (The keys of \<open>self.data\<close> are distinct: it is a Python
  dictionary.)
\<close>

theorem absent_key_stores_partial_object:
  "distinct (map fst data) \<Longrightarrow> (k, PPartial p) \<in> set data \<Longrightarrow> map_of m (KStr k) = None \<Longrightarrow>
   Partial_value data (PDict m) = Inr (PDict r) \<Longrightarrow> map_of r (KStr k) = Some (PPartial p)"
  using partial_dict_absent_key[of data k "PPartial p" m r] by (simp add: Partial_value.simps)

theorem absent_key_stores_partial_object_witness:
  "distinct (map fst [(''x'', PInt 5), (''a'', PPartial [(''value'', PInt 1)])]) \<and>
   (''a'', PPartial [(''value'', PInt 1)]) \<in> set [(''x'', PInt 5), (''a'', PPartial [(''value'', PInt 1)])] \<and>
   map_of [(KStr ''x'', PInt 0)] (KStr ''a'') = None \<and>
   Partial_value [(''x'', PInt 5), (''a'', PPartial [(''value'', PInt 1)])] (PDict [(KStr ''x'', PInt 0)]) =
     Inr (PDict [(KStr ''x'', PInt 5), (KStr ''a'', PPartial [(''value'', PInt 1)])]) \<and>
   map_of [(KStr ''x'', PInt 5), (KStr ''a'', PPartial [(''value'', PInt 1)])] (KStr ''a'') =
     Some (PPartial [(''value'', PInt 1)])"
  using absent_key_stores_partial_object
    [of "[(''x'', PInt 5), (''a'', PPartial [(''value'', PInt 1)])]" "''a''" "[(''value'', PInt 1)]"
        "[(KStr ''x'', PInt 0)]" "[(KStr ''x'', PInt 5), (KStr ''a'', PPartial [(''value'', PInt 1)])]"]
  by (simp add: Partial_value.simps assign_item.simps)

text \<open>
  The claim C3 as the specification states it fails: applied to the empty mapping, the
  patch \<open>{a: Partial(value=1)}\<close> stores the \<open>Partial\<close> object at \<open>a\<close>, although applying
  that object to an absent origin (\<open>None\<close>) gives \<open>1\<close>.
\<close>

theorem absent_key_partial_not_applied:
  "Partial_value [(''a'', PPartial [(''value'', PInt 1)])] (PDict []) =
     Inr (PDict [(KStr ''a'', PPartial [(''value'', PInt 1)])]) \<and>
   Partial_value [(''value'', PInt 1)] PNone = Inr (PInt 1)"
  by (simp add: Partial_value.simps)

text \<open>
  Claim C5 (unknown key ignored on a record). A key \<open>y\<close> of the patch that names no
  attribute of the record is skipped: the outcome is the outcome of the patch without that
  entry, the patch \<open>{y: v}\<close> alone returns the record as it was, and no result has an
  attribute the record did not have.
\<close>

theorem unknown_key_ignored_on_record:
  "y \<notin> fst ` set attrs \<Longrightarrow>
     Partial_value (pre @ (y, v) # post) (PModel c attrs) =
       Partial_value (pre @ post) (PModel c attrs)
   \<and> Partial_value [(y, v)] (PModel c attrs) = Inr (PModel c attrs)
   \<and> (\<forall>r. Partial_value (pre @ (y, v) # post) (PModel c attrs) = Inr r \<longrightarrow>
         (\<exists>attrs'. r = PModel c attrs' \<and> map fst attrs' = map fst attrs))"
  using base_model_skip[of y attrs pre v post c] base_model_skip[of y attrs "[]" v "[]" c]
    base_model_frame[of "pre @ (y, v) # post" c attrs]
  by (auto simp: Partial_value.simps)

text \<open>
  The example of the specification: the record \<open>R(x=1)\<close>, which has its field \<open>x\<close>
  and, as every pydantic record, methods that \<open>setattr\<close> refuses (three of them here);
  the patch \<open>{y: 2}\<close>.
\<close>

theorem unknown_key_ignored_on_record_witness:
  "''y'' \<notin> fst ` set [(''x'', PInt 1), (''model_dump'', PObject ''method''),
                       (''copy'', PObject ''method''), (''json'', PObject ''method'')] \<and>
   Partial_value [(''y'', PInt 2)]
     (PModel (ModelClass ''R'' [''x'']
                [(''model_dump'', ValueError ''no field model_dump''),
                 (''copy'', ValueError ''no field copy''),
                 (''json'', ValueError ''no field json'')])
        [(''x'', PInt 1), (''model_dump'', PObject ''method''),
         (''copy'', PObject ''method''), (''json'', PObject ''method'')]) =
     Inr (PModel (ModelClass ''R'' [''x'']
                [(''model_dump'', ValueError ''no field model_dump''),
                 (''copy'', ValueError ''no field copy''),
                 (''json'', ValueError ''no field json'')])
        [(''x'', PInt 1), (''model_dump'', PObject ''method''),
         (''copy'', PObject ''method''), (''json'', PObject ''method'')])"
  using unknown_key_ignored_on_record
    [of "''y''" "[(''x'', PInt 1), (''model_dump'', PObject ''method''),
                  (''copy'', PObject ''method''), (''json'', PObject ''method'')]"
        "[]" "PInt 2" "[]"
        "ModelClass ''R'' [''x'']
           [(''model_dump'', ValueError ''no field model_dump''),
            (''copy'', ValueError ''no field copy''),
            (''json'', ValueError ''no field json'')]"]
  by (simp add: Partial_value.simps)

text \<open>
  A key that names a method is not such a key: \<open>hasattr\<close> holds of it, the last branch
  of the chain is taken, and \<open>setattr\<close> raises. So does the assignment to a field of a
  frozen class.
\<close>

lemma key_naming_a_method_raises:
  "Partial_value [(''model_dump'', PInt 2)]
     (PModel (ModelClass ''R'' [''x'']
                [(''model_dump'', ValueError ''no field model_dump''),
                 (''copy'', ValueError ''no field copy''),
                 (''json'', ValueError ''no field json'')])
        [(''x'', PInt 1), (''model_dump'', PObject ''method''),
         (''copy'', PObject ''method''), (''json'', PObject ''method'')]) =
     Inl (ValueError ''no field model_dump'')"
  by (simp add: Partial_value.simps assign_attr.simps)

lemma field_of_frozen_class_raises:
  "Partial_value [(''x'', PInt 2)]
     (PModel (ModelClass ''F'' [''x''] [(''x'', ValueError ''frozen'')]) [(''x'', PInt 1)]) =
     Inl (ValueError ''frozen'')"
  by (simp add: Partial_value.simps assign_attr.simps)

text \<open>
  Claim C9 (no usable \<open>items\<close> directive). When the patch has no \<open>items\<close> entry, or its
  \<open>items\<close> value is neither a mapping nor a sequence, applying it to a sequence returns
  the sequence, and no error.
\<close>

theorem list_without_items_directive:
  "map_of data ''items'' = None \<or>
   (\<exists>w. map_of data ''items'' = Some w \<and> \<not> is_dict w \<and> \<not> is_list w) \<Longrightarrow>
   Partial_value data (PList s) = Inr (PList s)"
  by (auto simp: Partial_value.simps partial_list.simps split: option.splits pyval.splits)

theorem list_without_items_directive_witness:
  "Partial_value [(''name'', PStr ''n'')] (PList [PInt 1, PInt 2]) = Inr (PList [PInt 1, PInt 2]) \<and>
   Partial_value [(''items'', PInt 3)] (PList [PInt 1, PInt 2]) = Inr (PList [PInt 1, PInt 2])"
  using list_without_items_directive [of "[(''name'', PStr ''n'')]" "[PInt 1, PInt 2]"]
    list_without_items_directive [of "[(''items'', PInt 3)]" "[PInt 1, PInt 2]"]
  by simp

text \<open>
  Claim C10, as the code has it. \<open>Partial[X](**kwargs)\<close> validates nothing: when no
  keyword is named \<open>cls\<close> or \<open>self\<close> it succeeds, for every \<open>X\<close> and whatever the
  other names are, and for no keywords at all does it raise the validation error. The
  reason is the class that \<open>__new__\<close> receives: the \<open>__orig_bases__\<close> of \<open>Partial\<close> give
  no origin type, and every class whose \<open>__orig_bases__\<close> give none behaves so. A class
  whose \<open>__orig_bases__\<close> give a record class \<open>c\<close> validates against \<open>c\<close>, whether
  \<open>create_typed_partial\<close> made it or not.
\<close>

theorem subscript_performs_no_validation:
  "(''cls'' \<notin> set (map fst kwargs) \<and> ''self'' \<notin> set (map fst kwargs) \<longrightarrow>
      Partial_subscript X kwargs = Inr (PPartial kwargs)) \<and>
   (\<forall>msg. Partial_subscript X kwargs \<noteq> Inl (ValueError msg)) \<and>
   find_origin_type (case Partial_class of None \<Rightarrow> [] | Some bases \<Rightarrow> bases) = None \<and>
   (\<forall>bases. find_origin_type bases = None \<and>
      ''cls'' \<notin> set (map fst kwargs) \<and> ''self'' \<notin> set (map fst kwargs) \<longrightarrow>
      Partial_new (Some bases) kwargs = Inr (PPartial kwargs)) \<and>
   (\<forall>bases c. find_origin_type bases = Some (TModel c) \<and>
      ''cls'' \<notin> set (map fst kwargs) \<and> \<not> fst ` set kwargs \<subseteq> set (type_hints c) \<longrightarrow>
      Partial_new (Some bases) kwargs = Inl (ValueError (error_msg c (invalid_fields c kwargs))))"
proof (intro conjI allI impI)
  have none: "find_origin_type [GenericT] = None" by simp
  show "Partial_subscript X kwargs = Inr (PPartial kwargs)"
    if "''cls'' \<notin> set (map fst kwargs) \<and> ''self'' \<notin> set (map fst kwargs)"
    using that by (simp add: Partial_subscript_def Partial_class_def Partial_new_unbound[OF none])
  show "Partial_subscript X kwargs \<noteq> Inl (ValueError msg)" for msg
    by (simp add: Partial_subscript_def Partial_class_def Partial_new_unbound[OF none])
  show "find_origin_type (case Partial_class of None \<Rightarrow> [] | Some bases \<Rightarrow> bases) = None"
    by (simp add: Partial_class_def)
  show "Partial_new (Some bases) kwargs = Inr (PPartial kwargs)"
    if "find_origin_type bases = None \<and>
      ''cls'' \<notin> set (map fst kwargs) \<and> ''self'' \<notin> set (map fst kwargs)" for bases
    using that by (simp add: Partial_new_unbound)
  show "Partial_new (Some bases) kwargs = Inl (ValueError (error_msg c (invalid_fields c kwargs)))"
    if "find_origin_type bases = Some (TModel c) \<and>
      ''cls'' \<notin> set (map fst kwargs) \<and> \<not> fst ` set kwargs \<subseteq> set (type_hints c)" for bases c
    using that invalid_fields_empty_iff[of c kwargs]
    by (simp add: Partial_new_def construct_def call_new_def)
qed

theorem subscript_performs_no_validation_witness:
  "Partial_subscript (TModel (ModelClass ''User'' [''name''] [])) [(''z'', PInt 1)] =
     Inr (PPartial [(''z'', PInt 1)]) \<and>
   Partial_new (create_typed_partial (TModel (ModelClass ''User'' [''name''] []))) [(''z'', PInt 1)] =
     Inl (ValueError ''Invalid fields for User: z'')"
  using subscript_performs_no_validation
    [of "[(''z'', PInt 1)]" "TModel (ModelClass ''User'' [''name''] [])"]
  by (simp add: Partial_new_typed invalid_fields_def error_msg_def)

text \<open>
  The claim C10 as the specification states it fails twice. Construction does not
  succeed for every set of keywords: \<open>Partial[User](self=1)\<close> and \<open>Partial[User](cls=1)\<close>
  raise \<open>TypeError\<close>. And a class need not come from \<open>create_typed_partial\<close> to be
  validated: \<open>class Sub(Mixin, Partial[User])\<close> has the bases \<open>(Mixin, Partial[User])\<close>,
  which \<open>create_typed_partial\<close> never gives, and \<open>Sub(z=1)\<close> raises the validation
  error.
\<close>

theorem subscript_fails_on_parameter_names:
  "Partial_subscript (TModel (ModelClass ''User'' [''name''] [])) [(''self'', PInt 1)] =
     Inl TypeError \<and>
   Partial_subscript (TModel (ModelClass ''User'' [''name''] [])) [(''cls'', PInt 1)] =
     Inl TypeError \<and>
   Some [OtherBase ''Mixin'', PartialOf (TModel (ModelClass ''User'' [''name''] []))] \<noteq>
     create_typed_partial (TModel (ModelClass ''User'' [''name''] [])) \<and>
   Partial_new (Some [OtherBase ''Mixin'', PartialOf (TModel (ModelClass ''User'' [''name''] []))])
     [(''z'', PInt 1)] = Inl (ValueError ''Invalid fields for User: z'')"
  by (simp add: Partial_subscript_def Partial_class_def Partial_new_def construct_def
      call_new_def call_init_def create_typed_partial_def invalid_fields_def error_msg_def)







text \<open>
  Claim C7 (mapping merge). \<open>_merge_dicts(a, b)\<close> is right-biased and deep: a key that
  \<open>b\<close> does not have keeps its entry of \<open>a\<close>; a key of \<open>b\<close> holds the recursive merge
  when both \<open>a\<close> and \<open>b\<close> hold a mapping there, and the value of \<open>b\<close> otherwise. (The
  keys of \<open>b\<close> are distinct: it is a Python dictionary.)
\<close>

theorem merge_dicts_right_biased_deep:
  "distinct (map fst b) \<Longrightarrow>
   map_of (merge_dicts a b) k =
     (case map_of b k of
        None \<Rightarrow> map_of a k
      | Some v \<Rightarrow> Some (case (map_of a k, v) of
                        (Some (PDict a'), PDict b') \<Rightarrow> PDict (merge_dicts a' b')
                      | _ \<Rightarrow> v))"
  by (rule merge_dicts_lookup)

text \<open>
  The example of the specification: \<open>{"a": {"b": 1, "c": 2}}\<close> patched with
  \<open>{"a": {"b": 99}}\<close>.
\<close>

theorem merge_dicts_right_biased_deep_witness:
  "distinct (map fst [(KStr ''b'', PInt 99)]) \<and>
   map_of (merge_dicts [(KStr ''b'', PInt 1), (KStr ''c'', PInt 2)] [(KStr ''b'', PInt 99)])
     (KStr ''b'') = Some (PInt 99) \<and>
   map_of (merge_dicts [(KStr ''b'', PInt 1), (KStr ''c'', PInt 2)] [(KStr ''b'', PInt 99)])
     (KStr ''c'') = Some (PInt 2) \<and>
   Partial_value [(''a'', PDict [(KStr ''b'', PInt 99)])]
      (PDict [(KStr ''a'', PDict [(KStr ''b'', PInt 1), (KStr ''c'', PInt 2)])]) =
     Inr (PDict [(KStr ''a'', PDict [(KStr ''b'', PInt 99), (KStr ''c'', PInt 2)])])"
  using merge_dicts_right_biased_deep
      [of "[(KStr ''b'', PInt 99)]" "[(KStr ''b'', PInt 1), (KStr ''c'', PInt 2)]" "KStr ''b''"]
    merge_dicts_right_biased_deep
      [of "[(KStr ''b'', PInt 99)]" "[(KStr ''b'', PInt 1), (KStr ''c'', PInt 2)]" "KStr ''c''"]
  by (simp add: Partial_value.simps assign_item.simps)

text \<open>
  What the loop over an \<open>items\<close> mapping computes. Let the \<open>items\<close> directive of the
  patch be the mapping \<open>entries\<close>, applied to the sequence \<open>s\<close>.
  \<^item> The entries whose key is not an integer index within \<open>0..len(s)-1\<close> can be removed
    from the mapping: the outcome is the same, so they are skipped without raising.
  \<^item> A result has the length of \<open>s\<close>, and its element at \<open>j\<close> is the element of \<open>s\<close>
    at \<open>j\<close> after the entries that address \<open>j\<close> went over it in order.
  \<^item> An entry that is not a \<open>Partial\<close> object replaces the element, or merges into it
    when both are mappings; a \<open>Partial\<close> object is applied to the element and replaces it
    by the result. When that application raises \<open>ValueError\<close>, the \<open>except\<close> clause of
    the loop takes the error, and the entry is skipped as if it were not in the mapping.
  \<^item> When no entry is a \<open>Partial\<close> object there is a result.
\<close>

lemma items_index_mapping:
  assumes items: "map_of data ''items'' = Some (PDict entries)"
  shows "Partial_value data (PList s) =
      Partial_value [(''items'', PDict (filter (in_bounds (length s)) entries))] (PList s) \<and>
    (\<forall>r. Partial_value data (PList s) = Inr (PList r) \<longrightarrow>
       length r = length s \<and>
       (\<forall>j<length s. r ! j = foldl item_step (s ! j) (filter (addresses j) entries))) \<and>
    (\<forall>cur k v. \<not> is_partial v \<longrightarrow>
       item_step cur (k, v) =
         (case (cur, v) of
            (PList xs, PList ys) \<Rightarrow> PList ys
          | (PDict a, PDict b) \<Rightarrow> PDict (merge_dicts a b)
          | _ \<Rightarrow> v)) \<and>
    (\<forall>cur k d. item_step cur (k, PPartial d) =
       (case Partial_value d cur of Inr new \<Rightarrow> new | Inl e \<Rightarrow> cur)) \<and>
    (\<forall>k d i msg rest.
       py_int k = Some (int i) \<and> i < length s \<and>
       Partial_value d (s ! i) = Inl (ValueError msg) \<longrightarrow>
       Partial_value [(''items'', PDict ((k, PPartial d) # rest))] (PList s) =
         Partial_value [(''items'', PDict rest)] (PList s)) \<and>
    ((\<forall>e \<in> set entries. \<not> is_partial (snd e)) \<longrightarrow>
       (\<exists>r. Partial_value data (PList s) = Inr (PList r)))"
proof (intro conjI allI impI)
  have pv: "Partial_value data (PList s) = partial_list_items entries s"
    using items by (simp add: Partial_value.simps partial_list.simps)
  show "Partial_value data (PList s) =
      Partial_value [(''items'', PDict (filter (in_bounds (length s)) entries))] (PList s)"
    using items_skip_filter[of entries s] items
    by (simp add: Partial_value.simps partial_list.simps)
  show "\<exists>r. Partial_value data (PList s) = Inr (PList r)"
    if "\<forall>e \<in> set entries. \<not> is_partial (snd e)"
    using items_plain_total[OF that, of s] by (simp add: pv)
  show "length r = length s" if "Partial_value data (PList s) = Inr (PList r)" for r
    using items_elementwise[of entries s r] that by (simp add: pv)
  show "r ! j = foldl item_step (s ! j) (filter (addresses j) entries)"
    if "Partial_value data (PList s) = Inr (PList r)" "j < length s" for r j
    using items_elementwise[of entries s r] that by (simp add: pv)
  show "item_step cur (k, v) =
         (case (cur, v) of
            (PList xs, PList ys) \<Rightarrow> PList ys
          | (PDict a, PDict b) \<Rightarrow> PDict (merge_dicts a b)
          | _ \<Rightarrow> v)" if "\<not> is_partial v" for cur k v
    by (simp add: item_step_def assign_item_plain[OF that])
  show "item_step cur (k, PPartial d) =
       (case Partial_value d cur of Inr new \<Rightarrow> new | Inl e \<Rightarrow> cur)" for cur k d
    by (simp add: item_step_def assign_item.simps)
  show "Partial_value [(''items'', PDict ((k, PPartial d) # rest))] (PList s) =
         Partial_value [(''items'', PDict rest)] (PList s)"
    if "py_int k = Some (int i) \<and> i < length s \<and>
       Partial_value d (s ! i) = Inl (ValueError msg)" for k d i msg rest
    using that by (simp add: Partial_value.simps partial_list.simps assign_item.simps)
qed

text \<open>
  The example of the specification: \<open>{"items": {"1": 99}}\<close> on \<open>[10, 20, 30]\<close>, with
  an index out of bounds and a key that is no number beside it.
\<close>

lemma items_index_mapping_example:
  "map_of [(''items'', PDict [(KStr ''1'', PInt 99), (KStr ''5'', PInt 7), (KStr ''x'', PInt 8)])]
     ''items'' = Some (PDict [(KStr ''1'', PInt 99), (KStr ''5'', PInt 7), (KStr ''x'', PInt 8)]) \<and>
   filter (in_bounds (length [PInt 10, PInt 20, PInt 30]))
     [(KStr ''1'', PInt 99), (KStr ''5'', PInt 7), (KStr ''x'', PInt 8)] = [(KStr ''1'', PInt 99)] \<and>
   Partial_value
     [(''items'', PDict [(KStr ''1'', PInt 99), (KStr ''5'', PInt 7), (KStr ''x'', PInt 8)])]
     (PList [PInt 10, PInt 20, PInt 30]) = Inr (PList [PInt 10, PInt 99, PInt 30])"
  using items_index_mapping
    [of "[(''items'', PDict [(KStr ''1'', PInt 99), (KStr ''5'', PInt 7), (KStr ''x'', PInt 8)])]"
        "[(KStr ''1'', PInt 99), (KStr ''5'', PInt 7), (KStr ''x'', PInt 8)]"
        "[PInt 10, PInt 20, PInt 30]"]
  by (simp add: in_bounds_def py_int_simps Partial_value.simps partial_list.simps
      assign_item.simps)

text \<open>
  Claim C8 (index-targeted edit), where the code departs from it. The claim has every
  entry whose key is an index within bounds replace the element or merge into it. Here
  the key \<open>"0"\<close> is within bounds and its entry is a \<open>Partial\<close> object whose application
  to the element raises the validation error. In \<open>_partial_dict\<close> and in
  \<open>_partial_base_model\<close> that error leaves \<open>value\<close>, as the second and third equation
  show for the same patch under a key and under an attribute. In \<open>_partial_list\<close> the
  \<open>try\<close> that skips a key that is no number also encloses the application, its
  \<open>except\<close> clause takes the error, and the list is returned with the element as it was.
\<close>

theorem items_entry_in_bounds_skipped:
  "in_bounds 1 (KStr ''0'', PPartial [(''addr'', PDict [(KStr ''zip'', PInt 1)])]) \<and>
   Partial_value [(''addr'', PDict [(KStr ''zip'', PInt 1)])]
     (PModel (ModelClass ''User'' [''addr''] [])
        [(''addr'', PModel (ModelClass ''Addr'' [''street'', ''city''] [])
                      [(''street'', PStr ''A''), (''city'', PStr ''X'')])]) =
     Inl (ValueError ''Invalid fields for Addr: zip'') \<and>
   Partial_value [(''u'', PPartial [(''addr'', PDict [(KStr ''zip'', PInt 1)])])]
     (PDict [(KStr ''u'', PModel (ModelClass ''User'' [''addr''] [])
        [(''addr'', PModel (ModelClass ''Addr'' [''street'', ''city''] [])
                      [(''street'', PStr ''A''), (''city'', PStr ''X'')])])]) =
     Inl (ValueError ''Invalid fields for Addr: zip'') \<and>
   Partial_value
     [(''items'', PDict [(KStr ''0'', PPartial [(''addr'', PDict [(KStr ''zip'', PInt 1)])])])]
     (PList [PModel (ModelClass ''User'' [''addr''] [])
               [(''addr'', PModel (ModelClass ''Addr'' [''street'', ''city''] [])
                             [(''street'', PStr ''A''), (''city'', PStr ''X'')])]]) =
   Inr (PList [PModel (ModelClass ''User'' [''addr''] [])
               [(''addr'', PModel (ModelClass ''Addr'' [''street'', ''city''] [])
                             [(''street'', PStr ''A''), (''city'', PStr ''X'')])]])"
  by (simp add: in_bounds_def py_int_simps Partial_value.simps partial_list.simps
      assign_item.simps assign_attr.simps Partial_new_typed invalid_fields_def error_msg_def)

section \<open>No object of the store is changed\<close>

lemma unchanged_refl: "unchanged n h h"
  by (simp add: unchanged_def)

lemma unchanged_trans: "unchanged n h h1 \<Longrightarrow> unchanged n h1 h2 \<Longrightarrow> unchanged n h h2"
  by (simp add: unchanged_def)

lemma unchanged_mono:
  assumes "unchanged n h h'" and "m \<le> n"
  shows "unchanged m h h'"
proof -
  from assms(1) have "take m (take n h') = take m (take n h)" by (simp add: unchanged_def)
  with assms(2) have "take m h' = take m h" by (simp add: min_absorb1)
  with assms(1) show ?thesis by (simp add: unchanged_def)
qed

lemma unchanged_append: "n \<le> length h \<Longrightarrow> unchanged n h (h @ xs)"
  by (simp add: unchanged_def)

lemma unchanged_update: "n \<le> a \<Longrightarrow> unchanged n h (h[a := x])"
  by (simp add: unchanged_def)

lemma unchanged_length: "unchanged n h h' \<Longrightarrow> length h \<le> length h'"
  by (simp add: unchanged_def)

lemma unchanged_setitem: "n \<le> ra \<Longrightarrow> unchanged n h (setitem h ra k v)"
  by (auto simp: setitem_def unchanged_update unchanged_refl split: option.splits hobj.splits)

lemma unchanged_setattr: "n \<le> ra \<Longrightarrow> unchanged n h (setattr h ra k v)"
  by (auto simp: setattr_def unchanged_update unchanged_refl split: option.splits hobj.splits)

lemma unchanged_setindex: "n \<le> ra \<Longrightarrow> unchanged n h (setindex h ra i v)"
  by (auto simp: setindex_def unchanged_update unchanged_refl split: option.splits hobj.splits)

text \<open>A step that keeps the objects below the length of its heap keeps those below \<open>n0\<close>.\<close>

lemma unchanged_step:
  "unchanged n0 h h1 \<Longrightarrow> n0 \<le> length h \<Longrightarrow> unchanged (length h1) h1 h2 \<Longrightarrow> unchanged n0 h h2"
proof -
  assume a: "unchanged n0 h h1" "n0 \<le> length h" "unchanged (length h1) h1 h2"
  from a(1,2) have "n0 \<le> length h1" by (simp add: unchanged_def)
  from unchanged_mono[OF a(3) this] a(1) show ?thesis by (rule unchanged_trans[rotated])
qed

lemma copy_values_ok:
  assumes cp: "\<And>h memo v. n0 \<le> length h \<Longrightarrow> fresh n0 memo \<Longrightarrow> copy_ok n0 h memo (cp h memo v)"
  shows "n0 \<le> length h \<Longrightarrow> fresh n0 memo \<Longrightarrow> copy_ok n0 h memo (copy_values cp h memo vs)"
proof (induction vs arbitrary: h memo)
  case Nil
  then show ?case by (simp add: copy_ok_def unchanged_refl)
next
  case (Cons v vs)
  obtain h1 memo1 r1 where c1: "cp h memo v = (h1, memo1, r1)" by (cases "cp h memo v")
  from cp[OF Cons.prems, of v] c1 have u1: "unchanged (length h) h h1" and f1: "fresh n0 memo1"
    by (simp_all add: copy_ok_def)
  from u1 Cons.prems(1) have l1: "n0 \<le> length h1" by (simp add: unchanged_def)
  obtain h2 memo2 r2 where c2: "copy_values cp h1 memo1 vs = (h2, memo2, r2)"
    by (cases "copy_values cp h1 memo1 vs")
  from Cons.IH[OF l1 f1] c2 have u2: "unchanged (length h1) h1 h2" and f2: "fresh n0 memo2"
    by (simp_all add: copy_ok_def)
  have u: "unchanged (length h) h h2"
    using u1 u2 unchanged_step by blast
  show ?case
    using c1 c2 u1 f1 u f2 by (simp add: copy_ok_def split: sum.splits)
qed

lemma deepcopy_ok:
  "n0 \<le> length h \<Longrightarrow> fresh n0 memo \<Longrightarrow> copy_ok n0 h memo (deepcopy n h memo v)"
proof (induction n arbitrary: h memo v)
  case 0
  then show ?case by (simp add: copy_ok_def unchanged_refl split: option.splits)
next
  case (Suc n)
  show ?case
  proof (cases v)
    case (HRef a)
    show ?thesis
    proof (cases "map_of memo a")
      case (Some b)
      then show ?thesis using Suc.prems HRef by (simp add: copy_ok_def unchanged_refl)
    next
      case None
      show ?thesis
      proof (cases "obj_at h v")
        case None
        then show ?thesis using Suc.prems HRef \<open>map_of memo a = None\<close>
          by (simp add: copy_ok_def unchanged_refl)
      next
        case (Some obj)
        let ?h1 = "h @ [obj_with obj []]"
        let ?m1 = "(a, length h) # memo"
        have l1: "n0 \<le> length ?h1" using Suc.prems(1) by simp
        have f1: "fresh n0 ?m1" using Suc.prems by (simp add: fresh_def)
        obtain h2 memo2 r2 where
          c: "copy_values (deepcopy n) ?h1 ?m1 (obj_values obj) = (h2, memo2, r2)"
          by (cases "copy_values (deepcopy n) ?h1 ?m1 (obj_values obj)")
        from copy_values_ok[of n0 "deepcopy n" ?h1 ?m1 "obj_values obj", OF Suc.IH l1 f1] c
        have u2: "unchanged (length ?h1) ?h1 h2" and f2: "fresh n0 memo2"
          by (simp_all add: copy_ok_def)
        have u: "unchanged (length h) h h2"
          using unchanged_step[OF unchanged_append[of "length h" h "[obj_with obj []]"] _ u2] by simp
        have u': "unchanged (length h) h (h2[length h := x])" for x
          using unchanged_trans[OF u unchanged_update[of "length h" "length h" h2 x]] by simp
        show ?thesis
          using HRef None Some c u u' f2 by (simp add: copy_ok_def split: sum.splits)
      qed
    qed
  qed (simp_all add: copy_ok_def unchanged_refl Suc.prems)
qed

text \<open>The top-level copy of an object is a new object.\<close>

lemma deepcopy_result_fresh:
  "deepcopy n h [] v = (h', memo', Inr (HRef b)) \<Longrightarrow> length h \<le> b"
proof (cases n)
  case 0
  assume "deepcopy n h [] v = (h', memo', Inr (HRef b))"
  with 0 show ?thesis by (auto simp: obj_at_def split: option.splits hval.splits if_splits)
next
  case (Suc m)
  assume "deepcopy n h [] v = (h', memo', Inr (HRef b))"
  with Suc show ?thesis
    by (auto simp: obj_at_def split: option.splits hval.splits if_splits prod.splits sum.splits)
qed

lemma deepcopy_unchanged:
  "deepcopy n h [] v = (h', memo', r) \<Longrightarrow> unchanged (length h) h h'"
  using deepcopy_ok[of "length h" h "[]" n v] by (simp add: copy_ok_def fresh_def)


lemma frame_fnD: "frame_fn rec \<Longrightarrow> rec h d v = (h1, r) \<Longrightarrow> unchanged (length h) h h1"
  by (metis frame_fn_def fst_conv)

lemma h_merge_loop_frame:
  assumes rec: "\<And>h a b. unchanged (length h) h (fst (rec h a b))"
  shows "n0 \<le> ra \<Longrightarrow> n0 \<le> length h \<Longrightarrow> unchanged n0 h (fst (h_merge_loop rec h ra entries))"
proof (induction entries arbitrary: h)
  case Nil
  then show ?case by (simp add: unchanged_refl)
next
  case (Cons e entries)
  obtain k v where e: "e = (k, v)" by (cases e)
  have set_step: "unchanged n0 h (fst (h_merge_loop rec (setitem h ra k w) ra entries))" for w
  proof -
    have u: "unchanged n0 h (setitem h ra k w)" using Cons.prems(1) by (rule unchanged_setitem)
    then have "n0 \<le> length (setitem h ra k w)"
      using Cons.prems(2) unchanged_length le_trans by blast
    from unchanged_trans[OF u Cons.IH[OF Cons.prems(1) this]] show ?thesis .
  qed
  have rec_step: "unchanged n0 h (fst (h_merge_loop rec (setitem h1 ra k w) ra entries))"
    if "rec h a b = (h1, r)" for a b h1 r w
  proof -
    have u1: "unchanged n0 h h1"
      using rec[of h a b] that Cons.prems(2) unchanged_mono by fastforce
    then have l1: "n0 \<le> length h1" using Cons.prems(2) unchanged_length le_trans by blast
    have u2: "unchanged n0 h1 (setitem h1 ra k w)" using Cons.prems(1) by (rule unchanged_setitem)
    then have "n0 \<le> length (setitem h1 ra k w)" using l1 unchanged_length le_trans by blast
    from unchanged_trans[OF unchanged_trans[OF u1 u2] Cons.IH[OF Cons.prems(1) this]]
    show ?thesis .
  qed
  have rec_err: "unchanged n0 h h1" if "rec h a b = (h1, r)" for a b h1 r
    using rec[of h a b] that Cons.prems(2) unchanged_mono by fastforce
  show ?case
    using set_step rec_step rec_err
    by (auto simp: e unchanged_refl split: option.splits hobj.splits prod.splits sum.splits)
qed

lemma h_merge_dicts_frame: "unchanged (length h) h (fst (h_merge_dicts n h a b))"
proof (induction n arbitrary: h a b)
  case 0
  then show ?case by (simp add: unchanged_refl)
next
  case (Suc n)
  obtain h1 memo r where c: "deepcopy n h [] a = (h1, memo, r)" by (cases "deepcopy n h [] a")
  have u1: "unchanged (length h) h h1" using c by (rule deepcopy_unchanged)
  have loop: "unchanged (length h) h (fst (h_merge_loop (h_merge_dicts n) h1 ra entries))"
    if "r = Inr (HRef ra)" for ra entries
  proof -
    have "length h \<le> ra" using c that deepcopy_result_fresh by blast
    moreover have "length h \<le> length h1" using u1 by (rule unchanged_length)
    ultimately show ?thesis
      using h_merge_loop_frame[of "h_merge_dicts n" "length h" ra h1 entries] Suc.IH u1
        unchanged_trans by blast
  qed
  show ?case
    using c u1 loop by (auto split: sum.splits hval.splits option.splits hobj.splits)
qed

lemma h_assign_item_frame:
  "frame_fn rec \<Longrightarrow> unchanged (length h) h (fst (h_assign_item rec n h v ov))"
  by (auto simp: h_assign_item_def frame_fn_def unchanged_refl h_merge_dicts_frame
      split: option.splits hobj.splits)

lemma h_assign_attr_frame:
  assumes "frame_fn rec"
  shows "unchanged (length h) h (fst (h_assign_attr rec n h v ov))"
proof -
  have alloc: "unchanged (length h) h (fst (rec (h @ [x]) d w))" for x d w
  proof -
    have "unchanged (length (h @ [x])) (h @ [x]) (fst (rec (h @ [x]) d w))"
      using assms unfolding frame_fn_def by blast
    with unchanged_step[OF unchanged_append[of "length h" h "[x]"]] show ?thesis by blast
  qed
  show ?thesis
    using assms alloc
    by (auto simp: h_assign_attr_def frame_fn_def unchanged_refl h_merge_dicts_frame
        split: option.splits hobj.splits sum.splits)
qed


text \<open>One pass of a loop: a nested call, then an assignment to the copy at \<open>ra\<close>.\<close>

lemma nested_then_write:
  assumes n0: "n0 \<le> length h"
    and nested: "unchanged (length h) h h1"
    and wr: "unchanged n0 h1 h2"
    and rest: "n0 \<le> length h2 \<Longrightarrow> unchanged n0 h2 h3"
  shows "unchanged n0 h h3"
proof -
  have u1: "unchanged n0 h h1" using nested n0 by (rule unchanged_mono)
  then have "n0 \<le> length h1" using n0 by (simp add: unchanged_def)
  then have "n0 \<le> length h2" using wr by (simp add: unchanged_def)
  from unchanged_trans[OF unchanged_trans[OF u1 wr] rest[OF this]] show ?thesis .
qed

lemma h_base_model_loop_frame:
  assumes rec: "frame_fn rec"
  shows "n0 \<le> ra \<Longrightarrow> n0 \<le> length h \<Longrightarrow>
    unchanged n0 h (fst (h_base_model_loop rec n h ra entries))"
proof (induction entries arbitrary: h)
  case Nil
  then show ?case by (simp add: unchanged_refl)
next
  case (Cons e entries)
  obtain k v where e: "e = (k, v)" by (cases e)
  have step: "unchanged n0 h (fst (h_base_model_loop rec n (setattr h1 ra k new) ra entries))"
    if "h_assign_attr rec n h v ov = (h1, r)" for ov h1 r new
  proof (rule nested_then_write[OF Cons.prems(2)])
    show "unchanged (length h) h h1"
      using h_assign_attr_frame[OF rec, of h n v ov] that by simp
    show "unchanged n0 h1 (setattr h1 ra k new)" using Cons.prems(1) by (rule unchanged_setattr)
    show "unchanged n0 (setattr h1 ra k new)
        (fst (h_base_model_loop rec n (setattr h1 ra k new) ra entries))"
      if "n0 \<le> length (setattr h1 ra k new)"
      using Cons.IH[OF Cons.prems(1) that] .
  qed
  have err: "unchanged n0 h h1" if "h_assign_attr rec n h v ov = (h1, r)" for ov h1 r
    using h_assign_attr_frame[OF rec, of h n v ov] that Cons.prems(2) unchanged_mono by fastforce
  show ?case
  proof (cases "obj_at h (HRef ra)")
    case None
    then show ?thesis by (simp add: e unchanged_refl)
  next
    case (Some obj)
    show ?thesis
    proof (cases obj)
      case (HModel c result)
      show ?thesis
      proof (cases "map_of result k")
        case None
        then show ?thesis using Some HModel Cons.IH[OF Cons.prems] by (simp add: e)
      next
        case (Some ov)
        obtain h1 r where a: "h_assign_attr rec n h v ov = (h1, r)"
          by (cases "h_assign_attr rec n h v ov")
        show ?thesis
          using \<open>obj_at h (HRef ra) = Some obj\<close> HModel Some a step[OF a] err[OF a]
          by (cases r) (simp_all add: e split: option.splits)
      qed
    qed (simp_all add: e Some unchanged_refl)
  qed
qed

lemma h_dict_loop_frame:
  assumes rec: "frame_fn rec"
  shows "n0 \<le> ra \<Longrightarrow> n0 \<le> length h \<Longrightarrow>
    unchanged n0 h (fst (h_dict_loop rec n h ra entries))"
proof (induction entries arbitrary: h)
  case Nil
  then show ?case by (simp add: unchanged_refl)
next
  case (Cons e entries)
  obtain k v where e: "e = (k, v)" by (cases e)
  have step: "unchanged n0 h (fst (h_dict_loop rec n (setitem h1 ra (KStr k) new) ra entries))"
    if "unchanged (length h) h h1" for h1 new
  proof (rule nested_then_write[OF Cons.prems(2) that])
    show "unchanged n0 h1 (setitem h1 ra (KStr k) new)"
      using Cons.prems(1) by (rule unchanged_setitem)
    show "unchanged n0 (setitem h1 ra (KStr k) new)
        (fst (h_dict_loop rec n (setitem h1 ra (KStr k) new) ra entries))"
      if "n0 \<le> length (setitem h1 ra (KStr k) new)"
      using Cons.IH[OF Cons.prems(1) that] .
  qed
  show ?case
  proof (cases "obj_at h (HRef ra)")
    case None
    then show ?thesis by (simp add: e unchanged_refl)
  next
    case (Some obj)
    show ?thesis
    proof (cases obj)
      case (HDict result)
      show ?thesis
      proof (cases "map_of result (KStr k)")
        case None
        then show ?thesis using Some HDict step[OF unchanged_refl] by (simp add: e)
      next
        case (Some ov)
        obtain h1 r where a: "h_assign_item rec n h v ov = (h1, r)"
          by (cases "h_assign_item rec n h v ov")
        have u: "unchanged (length h) h h1"
          using h_assign_item_frame[OF rec, of h n v ov] a by simp
        have err: "unchanged n0 h h1" using u Cons.prems(2) by (rule unchanged_mono)
        show ?thesis
          using \<open>obj_at h (HRef ra) = Some obj\<close> HDict Some a step[OF u] err
          by (cases r) (simp_all add: e)
      qed
    qed (simp_all add: e Some unchanged_refl)
  qed
qed

lemma h_items_loop_frame:
  assumes rec: "frame_fn rec"
  shows "n0 \<le> ra \<Longrightarrow> n0 \<le> length h \<Longrightarrow>
    unchanged n0 h (fst (h_items_loop rec n h ra entries))"
proof (induction entries arbitrary: h)
  case Nil
  then show ?case by (simp add: unchanged_refl)
next
  case (Cons e entries)
  obtain k v where e: "e = (k, v)" by (cases e)
  have step: "unchanged n0 h (fst (h_items_loop rec n (setindex h1 ra i new) ra entries))"
    if "unchanged (length h) h h1" for h1 i new
  proof (rule nested_then_write[OF Cons.prems(2) that])
    show "unchanged n0 h1 (setindex h1 ra i new)"
      using Cons.prems(1) by (rule unchanged_setindex)
    show "unchanged n0 (setindex h1 ra i new)
        (fst (h_items_loop rec n (setindex h1 ra i new) ra entries))"
      if "n0 \<le> length (setindex h1 ra i new)"
      using Cons.IH[OF Cons.prems(1) that] .
  qed
  have skip: "unchanged n0 h (fst (h_items_loop rec n h1 ra entries))"
    if "unchanged (length h) h h1" for h1
    using nested_then_write[OF Cons.prems(2) that unchanged_refl Cons.IH[OF Cons.prems(1)]] .
  show ?case
  proof (cases "obj_at h (HRef ra)")
    case None
    then show ?thesis by (simp add: e unchanged_refl)
  next
    case (Some obj)
    show ?thesis
    proof (cases obj)
      case (HList result)
      show ?thesis
      proof (cases "py_int k")
        case None
        then show ?thesis using Some HList skip[OF unchanged_refl] by (simp add: e)
      next
        case (Some idx)
        show ?thesis
        proof (cases "0 \<le> idx \<and> idx < int (length result)")
          case False
          then show ?thesis
            using \<open>obj_at h (HRef ra) = Some obj\<close> HList Some skip[OF unchanged_refl]
            by (auto simp: e)
        next
          case True
          obtain h1 r where a: "h_assign_item rec n h v (result ! nat idx) = (h1, r)"
            by (cases "h_assign_item rec n h v (result ! nat idx)")
          have u: "unchanged (length h) h h1"
            using h_assign_item_frame[OF rec, of h n v "result ! nat idx"] a by simp
          have err: "unchanged n0 h h1" using u Cons.prems(2) by (rule unchanged_mono)
          show ?thesis
          proof (cases r)
            case (Inl x)
            then show ?thesis
              using \<open>obj_at h (HRef ra) = Some obj\<close> HList Some True a skip[OF u] err
              by (cases x) (simp_all add: e)
          next
            case (Inr new)
            then show ?thesis
              using \<open>obj_at h (HRef ra) = Some obj\<close> HList Some True a step[OF u]
              by (simp add: e)
          qed
        qed
      qed
    qed (simp_all add: e Some unchanged_refl)
  qed
qed


lemma h_partial_base_model_frame:
  assumes rec: "frame_fn rec"
  shows "unchanged (length h) h (fst (h_partial_base_model rec n h data original))"
proof -
  obtain h1 memo r where c: "deepcopy n h [] original = (h1, memo, r)"
    by (cases "deepcopy n h [] original")
  have u1: "unchanged (length h) h h1" using c by (rule deepcopy_unchanged)
  have loop: "unchanged (length h) h (fst (h_base_model_loop rec n h1 ra data))"
    if "r = Inr (HRef ra)" for ra
  proof -
    have "length h \<le> ra" using c that deepcopy_result_fresh by blast
    from unchanged_trans[OF u1 h_base_model_loop_frame[OF rec this unchanged_length[OF u1]]]
    show ?thesis .
  qed
  show ?thesis
    using c u1 loop by (auto simp: h_partial_base_model_def split: sum.splits hval.splits)
qed

lemma h_partial_dict_frame:
  assumes rec: "frame_fn rec"
  shows "unchanged (length h) h (fst (h_partial_dict rec n h data original))"
proof -
  obtain h1 memo r where c: "deepcopy n h [] original = (h1, memo, r)"
    by (cases "deepcopy n h [] original")
  have u1: "unchanged (length h) h h1" using c by (rule deepcopy_unchanged)
  have loop: "unchanged (length h) h (fst (h_dict_loop rec n h1 ra data))"
    if "r = Inr (HRef ra)" for ra
  proof -
    have "length h \<le> ra" using c that deepcopy_result_fresh by blast
    from unchanged_trans[OF u1 h_dict_loop_frame[OF rec this unchanged_length[OF u1]]]
    show ?thesis .
  qed
  show ?thesis
    using c u1 loop by (auto simp: h_partial_dict_def split: sum.splits hval.splits)
qed

lemma h_partial_list_frame:
  assumes rec: "frame_fn rec"
  shows "unchanged (length h) h (fst (h_partial_list rec n h data original))"
proof (cases "map_of data ''items''")
  case None
  then show ?thesis by (simp add: h_partial_list_def unchanged_refl)
next
  case (Some partial_items)
  obtain h1 memo r where c: "deepcopy n h [] original = (h1, memo, r)"
    by (cases "deepcopy n h [] original")
  have u1: "unchanged (length h) h h1" using c by (rule deepcopy_unchanged)
  have loop: "unchanged (length h) h (fst (h_items_loop rec n h1 ra entries))"
    if "r = Inr (HRef ra)" for ra entries
  proof -
    have "length h \<le> ra" using c that deepcopy_result_fresh by blast
    from unchanged_trans[OF u1 h_items_loop_frame[OF rec this unchanged_length[OF u1]]]
    show ?thesis .
  qed
  show ?thesis
    using Some c u1 loop
    by (auto simp: h_partial_list_def split: sum.splits hval.splits option.splits hobj.splits)
qed

lemma h_Partial_value_frame: "frame_fn (h_Partial_value n)"
proof (induction n)
  case 0
  then show ?case by (simp add: frame_fn_def unchanged_refl)
next
  case (Suc n)
  show ?case
    unfolding frame_fn_def
  proof (intro allI)
    fix h d v
    show "unchanged (length h) h (fst (h_Partial_value (Suc n) h d v))"
      using h_partial_base_model_frame[OF Suc, of h n d v] h_partial_dict_frame[OF Suc, of h n d v]
        h_partial_list_frame[OF Suc, of h n d v]
      by (simp add: unchanged_refl split: option.splits hobj.splits)
  qed
qed

lemma unchanged_prefix:
  assumes "unchanged (length h) h h'"
  shows "prefix h h'"
proof -
  from assms have "take (length h) h' = h" by (simp add: unchanged_def)
  then show ?thesis using take_is_prefix[of "length h" h'] by simp
qed


subsection \<open>Reading values from an extended store\<close>

lemma obj_at_prefix: "prefix h h' \<Longrightarrow> obj_at h v = Some obj \<Longrightarrow> obj_at h' v = Some obj"
  by (auto simp: obj_at_def prefix_def nth_append split: hval.splits if_splits)

lemma those_mono:
  "those (map f xs) = Some ts \<Longrightarrow> (\<And>x t. x \<in> set xs \<Longrightarrow> f x = Some t \<Longrightarrow> g x = Some t) \<Longrightarrow>
   those (map g xs) = Some ts"
proof (induction xs arbitrary: ts)
  case Nil
  then show ?case by simp
next
  case (Cons x xs)
  from Cons.prems(1) obtain t ts' where
    t: "f x = Some t" "those (map f xs) = Some ts'" "ts = t # ts'"
    by (auto split: option.splits)
  have "those (map g xs) = Some ts'" using Cons.IH[OF t(2)] Cons.prems(2) by simp
  moreover have "g x = Some t" using Cons.prems(2) t(1) by simp
  ultimately show ?case using t(3) by simp
qed

lemma reify_prefix:
  "prefix h h' \<Longrightarrow> reify n h v = Some t \<Longrightarrow> reify n h' v = Some t"
proof (induction n arbitrary: v t)
  case 0
  then show ?case by (simp split: hval.splits)
next
  case (Suc n)
  have m: "those (map (reify n h) xs) = Some ts \<Longrightarrow> those (map (reify n h') xs) = Some ts"
    for xs ts
    using those_mono[of "reify n h" xs ts "reify n h'"] Suc.IH[OF Suc.prems(1)] by blast
  have m2: "those (map (reify n h \<circ> snd) d) = Some ts \<Longrightarrow>
      those (map (reify n h' \<circ> snd) d) = Some ts"
    for d :: "(key \<times> hval) list" and ts
    using those_mono[of "reify n h \<circ> snd" d ts "reify n h' \<circ> snd"]
      Suc.IH[OF Suc.prems(1)] by simp
  have m3: "those (map (reify n h \<circ> snd) d) = Some ts \<Longrightarrow>
      those (map (reify n h' \<circ> snd) d) = Some ts"
    for d :: "(string \<times> hval) list" and ts
    using those_mono[of "reify n h \<circ> snd" d ts "reify n h' \<circ> snd"]
      Suc.IH[OF Suc.prems(1)] by simp
  show ?case
  proof (cases v)
    case (HRef a)
    with Suc.prems(2) obtain obj where obj: "obj_at h v = Some obj"
      by (auto split: option.splits)
    have obj': "obj_at h' v = Some obj" using obj_at_prefix[OF Suc.prems(1) obj] .
    show ?thesis
      using Suc.prems(2) HRef obj obj' m m2 m3
      by (cases obj) (auto simp del: those.simps)
  qed (use Suc.prems(2) in simp_all)
qed

section \<open>Properties of the store semantics\<close>

text \<open>
  Claim C1 (non-mutation). For every store, every patch \<open>self\<close> and every original
  value, whatever \<open>self.value(original)\<close> returns or raises, the store it leaves begins
  with the store it was given: every object that existed before the call, the original and
  all that can be reached from it among them, holds what it held. So every value that
  could be read from the store before the call (attributes, entries and elements, to any
  depth) is read from it after the call.
\<close>

theorem value_never_mutates:
  "prefix h (fst (h_value fuel h self original)) \<and>
   (\<forall>n v t. reify n h v = Some t \<longrightarrow> reify n (fst (h_value fuel h self original)) v = Some t)"
proof -
  have "unchanged (length h) h (fst (h_value fuel h self original))"
    using h_Partial_value_frame[of fuel]
    by (auto simp: h_value_def frame_fn_def unchanged_refl split: option.splits hobj.splits)
  then have "prefix h (fst (h_value fuel h self original))" by (rule unchanged_prefix)
  then show ?thesis using reify_prefix by blast
qed

lemma example_run:
  "h_value 3 example_heap (HRef 2) (HRef 0) =
     (example_heap @
        [HModel (ModelClass ''User'' [''name'', ''tags''] []) [(''name'', HStr ''b''), (''tags'', HRef 3)],
         HList [HInt 1, HInt 2]],
      Inr (HRef 4))"
  by code_simp

lemma example_reify:
  "reify 2 example_heap (HRef 0) =
     Some (PModel (ModelClass ''User'' [''name'', ''tags''] [])
             [(''name'', PStr ''a''), (''tags'', PList [PInt 1, PInt 2])]) \<and>
   reify 2 (fst (h_value 3 example_heap (HRef 2) (HRef 0))) (HRef 4) =
     Some (PModel (ModelClass ''User'' [''name'', ''tags''] [])
             [(''name'', PStr ''b''), (''tags'', PList [PInt 7])]) \<and>
   Partial_value [(''name'', PStr ''b''), (''tags'', PList [PInt 7])]
     (PModel (ModelClass ''User'' [''name'', ''tags''] [])
             [(''name'', PStr ''a''), (''tags'', PList [PInt 1, PInt 2])]) =
     Inr (PModel (ModelClass ''User'' [''name'', ''tags''] [])
             [(''name'', PStr ''b''), (''tags'', PList [PInt 7])])"
  by code_simp

theorem value_never_mutates_witness:
  "reify 2 example_heap (HRef 0) =
     Some (PModel (ModelClass ''User'' [''name'', ''tags''] [])
             [(''name'', PStr ''a''), (''tags'', PList [PInt 1, PInt 2])]) \<and>
   reify 2 (fst (h_value 3 example_heap (HRef 2) (HRef 0))) (HRef 0) =
     Some (PModel (ModelClass ''User'' [''name'', ''tags''] [])
             [(''name'', PStr ''a''), (''tags'', PList [PInt 1, PInt 2])]) \<and>
   prefix example_heap (fst (h_value 3 example_heap (HRef 2) (HRef 0)))"
  using value_never_mutates[of example_heap 3 "HRef 2" "HRef 0"] example_reify by simp

end
